theory Spec2Isabelle
  imports Complex_Main "HOL-Library.Log_Nat"
begin

section \<open>Python numbers\<close>

text \<open>
  The simulator is Python. Hand totals, counters and the running count are Python
  integers (\<open>int\<close>, unbounded). Money (\<open>current_bet\<close>, \<open>total_bets\<close>,
  \<open>total_earnings\<close>) starts as \<open>int\<close> and becomes a \<open>float\<close> as soon as a blackjack
  multiplies the bet by \<open>1.5\<close> or \<open>calculate_bet\<close> divides by \<open>52.0\<close>. A \<open>float\<close> is an
  IEEE 754 binary64 number: every operation returns the representable number nearest to
  the exact result, ties going to the even significand.
\<close>

text \<open>Exceptions the modelled statements can raise.\<close>

datatype error = IndexError | KeyError | OverflowError | ZeroDivisionError

text \<open>
  A \<open>float\<close>: a sign (\<open>True\<close> for minus) with a magnitude, an infinity, or a NaN.
  There are two zeros, \<open>Finite False 0\<close> and \<open>Finite True 0\<close>.
\<close>

datatype double = Finite bool rat | Infinity bool | NaN

datatype number = PyInt int | PyFloat double

definition pow2 :: "int \<Rightarrow> rat" where
  "pow2 k = (if k \<ge> 0 then 2 ^ nat k else 1 / 2 ^ nat (- k))"

text \<open>The binary exponent of a positive rational: \<open>2 ^ e \<le> q < 2 ^ (e + 1)\<close>.\<close>

definition ilog2 :: "rat \<Rightarrow> int" where
  "ilog2 q = (if q \<ge> 1 then bitlen \<lfloor>q\<rfloor> - 1 else - bitlen (\<lceil>1 / q\<rceil> - 1))"

definition round_half_even :: "rat \<Rightarrow> int" where
  "round_half_even x =
     (let f = \<lfloor>x\<rfloor>; d = x - of_int f
      in if d < 1 / 2 then f else if d > 1 / 2 then f + 1 else if even f then f else f + 1)"

text \<open>
  Rounding of a magnitude to binary64: 53 significant bits, the spacing never finer than
  \<open>2 ^ - 1074\<close> (subnormal numbers), and \<open>None\<close> when the rounded magnitude reaches
  \<open>2 ^ 1024\<close>.
\<close>

definition round_mag :: "rat \<Rightarrow> rat option" where
  "round_mag q =
     (if q = 0 then Some 0
      else (let e = ilog2 q;
                u = pow2 (max e (- 1022) - 52);
                r = round_half_even (q / u)
            in if e > 1023 \<or> (e = 1023 \<and> r \<ge> 9007199254740992) then None
               else Some (of_int r * u)))"

text \<open>A float operation that overflows returns an infinity.\<close>

definition to_nearest :: "bool \<Rightarrow> rat \<Rightarrow> double" where
  "to_nearest s q = (case round_mag q of None \<Rightarrow> Infinity s | Some v \<Rightarrow> Finite s v)"

fun dval :: "double \<Rightarrow> rat" where
  "dval (Finite s m) = (if s then - m else m)"
| "dval (Infinity s) = 0"
| "dval NaN = 0"

fun fadd :: "double \<Rightarrow> double \<Rightarrow> double" where
  "fadd NaN b = NaN"
| "fadd a NaN = NaN"
| "fadd (Infinity s) (Infinity t) = (if s = t then Infinity s else NaN)"
| "fadd (Infinity s) (Finite t n) = Infinity s"
| "fadd (Finite s m) (Infinity t) = Infinity t"
| "fadd (Finite s m) (Finite t n) =
     (let x = dval (Finite s m) + dval (Finite t n)
      in if x = 0 then Finite (s \<and> t) 0 else to_nearest (x < 0) \<bar>x\<bar>)"

fun fneg :: "double \<Rightarrow> double" where
  "fneg (Finite s m) = Finite (\<not> s) m"
| "fneg (Infinity s) = Infinity (\<not> s)"
| "fneg NaN = NaN"

fun fmul :: "double \<Rightarrow> double \<Rightarrow> double" where
  "fmul NaN b = NaN"
| "fmul a NaN = NaN"
| "fmul (Infinity s) (Infinity t) = Infinity (s \<noteq> t)"
| "fmul (Infinity s) (Finite t n) = (if n = 0 then NaN else Infinity (s \<noteq> t))"
| "fmul (Finite s m) (Infinity t) = (if m = 0 then NaN else Infinity (s \<noteq> t))"
| "fmul (Finite s m) (Finite t n) = to_nearest (s \<noteq> t) (m * n)"

text \<open>Division by a nonzero float (Python raises on a zero divisor before dividing).\<close>

fun fdiv :: "double \<Rightarrow> double \<Rightarrow> double" where
  "fdiv NaN b = NaN"
| "fdiv a NaN = NaN"
| "fdiv (Infinity s) (Infinity t) = NaN"
| "fdiv (Infinity s) (Finite t n) = Infinity (s \<noteq> t)"
| "fdiv (Finite s m) (Infinity t) = Finite (s \<noteq> t) 0"
| "fdiv (Finite s m) (Finite t n) = to_nearest (s \<noteq> t) (m / n)"

text \<open>
  \<open>float(x)\<close>, also the conversion of an \<open>int\<close> operand that meets a \<open>float\<close>: the nearest
  float, and \<open>OverflowError\<close> for an \<open>int\<close> too large for one.
\<close>

definition py_float :: "number \<Rightarrow> error + double" where
  "py_float x =
     (case x of
        PyFloat f \<Rightarrow> Inr f
      | PyInt i \<Rightarrow> (case round_mag \<bar>of_int i\<bar> of
                   None \<Rightarrow> Inl OverflowError
                 | Some v \<Rightarrow> Inr (Finite (i < 0) v)))"

definition float_op :: "(double \<Rightarrow> double \<Rightarrow> double) \<Rightarrow> number \<Rightarrow> number \<Rightarrow> error + number" where
  "float_op f x y =
     (case py_float x of
        Inl e \<Rightarrow> Inl e
      | Inr a \<Rightarrow> (case py_float y of Inl e \<Rightarrow> Inl e | Inr b \<Rightarrow> Inr (PyFloat (f a b))))"

text \<open>\<open>x + y\<close>, \<open>x - y\<close> and \<open>x * y\<close>: exact on two \<open>int\<close>s, in floats otherwise.\<close>

fun py_add :: "number \<Rightarrow> number \<Rightarrow> error + number" where
  "py_add (PyInt a) (PyInt b) = Inr (PyInt (a + b))"
| "py_add x y = float_op fadd x y"

fun py_sub :: "number \<Rightarrow> number \<Rightarrow> error + number" where
  "py_sub (PyInt a) (PyInt b) = Inr (PyInt (a - b))"
| "py_sub x y = float_op (\<lambda>a b. fadd a (fneg b)) x y"

fun py_mul :: "number \<Rightarrow> number \<Rightarrow> error + number" where
  "py_mul (PyInt a) (PyInt b) = Inr (PyInt (a * b))"
| "py_mul x y = float_op fmul x y"

definition is_zero :: "number \<Rightarrow> bool" where
  "is_zero y = (case y of PyInt i \<Rightarrow> i = 0 | PyFloat (Finite s m) \<Rightarrow> m = 0 | PyFloat _ \<Rightarrow> False)"

text \<open>
  \<open>x / y\<close>: always a float. The quotient of two \<open>int\<close>s is rounded once; a zero divisor
  raises \<open>ZeroDivisionError\<close>.
\<close>

definition py_truediv :: "number \<Rightarrow> number \<Rightarrow> error + number" where
  "py_truediv x y =
     (case (x, y) of
        (PyInt a, PyInt b) \<Rightarrow>
          (if b = 0 then Inl ZeroDivisionError
           else (case round_mag \<bar>of_int a / of_int b\<bar> of
                   None \<Rightarrow> Inl OverflowError
                 | Some v \<Rightarrow> Inr (PyFloat (Finite ((a < 0) \<noteq> (b < 0)) v))))
      | _ \<Rightarrow>
          (case py_float x of
             Inl e \<Rightarrow> Inl e
           | Inr a \<Rightarrow>
              (case py_float y of
                 Inl e \<Rightarrow> Inl e
               | Inr b \<Rightarrow> if is_zero (PyFloat b) then Inl ZeroDivisionError
                          else Inr (PyFloat (fdiv a b)))))"

text \<open>
  Where a number lies on the extended line (\<open>None\<close> for a NaN): Python compares an
  \<open>int\<close> with a \<open>float\<close> by their exact values.
\<close>

definition position :: "number \<Rightarrow> (int \<times> rat) option" where
  "position x =
     (case x of
        PyInt i \<Rightarrow> Some (0, of_int i)
      | PyFloat (Finite s m) \<Rightarrow> Some (0, dval (Finite s m))
      | PyFloat (Infinity s) \<Rightarrow> Some (if s then - 1 else 1, 0)
      | PyFloat NaN \<Rightarrow> None)"

text \<open>\<open>x > y\<close>.\<close>

definition py_gt :: "number \<Rightarrow> number \<Rightarrow> bool" where
  "py_gt x y =
     (case position x of
        None \<Rightarrow> False
      | Some (a, v) \<Rightarrow>
         (case position y of
            None \<Rightarrow> False
          | Some (b, w) \<Rightarrow> a > b \<or> (a = b \<and> v > w)))"

text \<open>\<open>max(a, b)\<close> keeps its first argument unless the second is greater.\<close>

definition py_max :: "number \<Rightarrow> number \<Rightarrow> number" where
  "py_max a b = (if py_gt b a then b else a)"

text \<open>The exact value of a finite number.\<close>

fun py_val :: "number \<Rightarrow> rat" where
  "py_val (PyInt i) = of_int i"
| "py_val (PyFloat f) = dval f"

text \<open>\<open>math.isfinite\<close>: neither an infinity nor a NaN.\<close>

fun isfinite :: "number \<Rightarrow> bool" where
  "isfinite (PyInt i) = True"
| "isfinite (PyFloat (Finite s m)) = True"
| "isfinite (PyFloat (Infinity s)) = False"
| "isfinite (PyFloat NaN) = False"

section \<open>Data model\<close>

text \<open>
  Modelled from the spec: the class \<open>Card\<close> (module \<open>blackjack.card\<close>) is not among the
  sources. A card carries its rank and suit, its blackjack worth (\<open>card.value\<close>, 11 for
  an ace) and its counting weight (\<open>card.count_value\<close>).
\<close>

record card =
  rank :: string
  suit :: string
  card_value :: int
  count_value :: int

text \<open>
  Modelled from the spec: \<open>Card.__eq__\<close> is not among the sources; the spec describes
  the comparisons \<open>card == Card('ace', 'spades')\<close> and \<open>cards[0] == cards[1]\<close> as
  equality of rank.
\<close>

definition card_eq :: "card \<Rightarrow> card \<Rightarrow> bool" where
  "card_eq a b = (rank a = rank b)"

definition ace_instance :: card where
  "ace_instance = \<lparr>rank = ''ace'', suit = ''spades'', card_value = 11, count_value = - 1\<rparr>"

text \<open>
  Modelled from the spec: the class \<open>Hand\<close> (module \<open>blackjack.hand\<close>) is not among the
  sources. The source reads and writes its attributes \<open>cards\<close>, \<open>value\<close> and \<open>aces\<close>;
  \<open>Hand()\<close> is the empty hand.
\<close>

record hand =
  cards :: "card list"
  hand_value :: int
  aces :: int

definition Hand :: hand where
  "Hand = \<lparr>cards = [], hand_value = 0, aces = 0\<rparr>"

text \<open>
  Modelled from the spec: the class \<open>Deck\<close> (module \<open>blackjack.deck\<close>) is not among the
  sources. The source uses \<open>deck.cards\<close> (drawn from the end), \<open>deck.cards_left\<close>,
  \<open>deck.number_of_decks\<close>, \<open>deck.is_empty()\<close> and \<open>deck.shuffle(n)\<close>. The state of the
  random source is the field \<open>seed\<close>.
\<close>

record deck =
  deck_cards :: "card list"
  number_of_decks :: int
  cards_left :: int
  seed :: nat

text \<open>
  The injected collaborators: the three strategy tables (\<open>DataFrame.loc\<close> raises
  \<open>KeyError\<close> on a missing key, here \<open>None\<close>) and the outcome of a shuffle of
  \<open>n\<close> decks from a given state of the random source.
\<close>

record env =
  hard_table :: "int \<Rightarrow> string \<Rightarrow> string option"
  soft_table :: "int \<Rightarrow> string \<Rightarrow> string option"
  split_table :: "string \<Rightarrow> string \<Rightarrow> string option"
  shuffled :: "nat \<Rightarrow> int \<Rightarrow> card list"

text \<open>Modelled from the spec: \<open>Deck.is_empty\<close> is \<open>cards_left == 0\<close>.\<close>

definition is_empty :: "deck \<Rightarrow> bool" where
  "is_empty d = (cards_left d = 0)"

text \<open>
  Modelled from the spec: \<open>Deck.shuffle(n)\<close> regenerates the shoe (\<open>n\<close> fresh decks in a
  random order) and restores \<open>cards_left\<close> to the number of cards.
\<close>

definition shuffle :: "env \<Rightarrow> int \<Rightarrow> deck \<Rightarrow> deck" where
  "shuffle e n d =
     d\<lparr>deck_cards := shuffled e (seed d) n,
       cards_left := int (length (shuffled e (seed d) n)),
       seed := Suc (seed d)\<rparr>"

text \<open>\<open>BasicPlayer\<close>: the attributes set by \<open>__init__\<close>.\<close>

record player =
  hand :: hand
  name :: string
  is_done :: bool
  current_bet :: number
  total_bets :: number
  total_earnings :: number
  rounds :: int
  wins :: int
  draws :: int
  losses :: int
  busts :: int
  stands :: int
  card_counting :: bool
  count :: int

definition BasicPlayer :: "string \<Rightarrow> bool \<Rightarrow> player" where
  "BasicPlayer nm cc =
     \<lparr>hand = Hand, name = nm, is_done = False, current_bet = PyInt 0,
      total_bets = PyInt 0, total_earnings = PyInt 0, rounds = 0, wins = 0, draws = 0, losses = 0, busts = 0,
      stands = 0, card_counting = cc, count = 0\<rparr>"

text \<open>
  Modelled from the spec: the class \<open>Dealer\<close> (module \<open>entities.dealer\<close>) is not among
  the sources. It owns a hand, the flag \<open>is_done\<close> and \<open>up_card\<close>, its first dealt card.
\<close>

record dealer =
  dealer_hand :: hand
  dealer_is_done :: bool
  up_card :: card

section \<open>The hand total\<close>

text \<open>
  The loop of \<open>hit_me\<close>:
  \<^verbatim>\<open>while self.hand.aces > 0 and self.hand.value > 21:
      self.hand.value -= 10
      self.hand.aces -= 1\<close>
\<close>

function ace_adjust :: "hand \<Rightarrow> hand" where
  "ace_adjust h =
     (if aces h > 0 \<and> hand_value h > 21
      then ace_adjust (h\<lparr>hand_value := hand_value h - 10, aces := aces h - 1\<rparr>)
      else h)"
  by pat_completeness auto
termination
  by (relation "measure (\<lambda>h. nat (aces h))") auto

declare ace_adjust.simps [simp del]

text \<open>
  The total derived from a card sequence, following the words of the spec
  (\<open>recompute(cards) -> (value, acesAsEleven)\<close>): the sum of the cards' worth and the
  number of aces, then one ace after the other reduced from 11 to 1 while the total
  exceeds 21 and an ace counted as 11 remains.
\<close>

function reduce_aces :: "int \<Rightarrow> int \<Rightarrow> int \<times> int" where
  "reduce_aces v a = (if a > 0 \<and> v > 21 then reduce_aces (v - 10) (a - 1) else (v, a))"
  by pat_completeness auto
termination
  by (relation "measure (\<lambda>(v, a). nat a)") auto

declare reduce_aces.simps [simp del]

definition recompute :: "card list \<Rightarrow> int \<times> int" where
  "recompute cs =
     reduce_aces (sum_list (map card_value cs))
       (int (length (filter (\<lambda>c. rank c = ''ace'') cs)))"

text \<open>
  Modelled from the spec: drawing from the shoe regenerates and reshuffles it first when
  it is empty (\<open>Deck.draw\<close>). \<open>refill\<close> is the shoe the card is then taken from.
\<close>

definition refill :: "env \<Rightarrow> deck \<Rightarrow> deck" where
  "refill e dk = (if is_empty dk then shuffle e (number_of_decks dk) dk else dk)"

text \<open>
  Modelled from the spec: \<open>addCard(card)\<close> appends the card, adds its worth to the total,
  counts it when it is an ace, then runs the ace reduction loop; a hand is finished by a
  draw when it is bust or a two-card 21.
\<close>

definition add_card :: "card \<Rightarrow> hand \<Rightarrow> hand" where
  "add_card c h =
     ace_adjust (h\<lparr>cards := cards h @ [c], hand_value := hand_value h + card_value c,
                   aces := (if rank c = ''ace'' then aces h + 1 else aces h)\<rparr>)"

definition finished :: "hand \<Rightarrow> bool" where
  "finished h = (hand_value h > 21 \<or> (length (cards h) = 2 \<and> hand_value h = 21))"

section \<open>BasicPlayer\<close>

text \<open>
  \<open>hit_me\<close>: reshuffle an empty shoe (resetting the count of a counting player), pop
  the last card of the shoe (\<open>IndexError\<close> when the list is empty), add it to the hand
  and the count, adjust aces, and finish the hand on a bust or a two-card 21.
\<close>

definition hit_me :: "env \<Rightarrow> player \<Rightarrow> deck \<Rightarrow> error + (player \<times> deck)" where
  "hit_me e self dk =
     (let (self, dk) =
            (if is_empty dk
             then ((if card_counting self then self\<lparr>count := 0\<rparr> else self),
                   shuffle e (number_of_decks dk) dk)
             else (self, dk))
      in case deck_cards dk of
           [] \<Rightarrow> Inl IndexError
         | _ # _ \<Rightarrow>
            (let c = last (deck_cards dk);
                 dk = dk\<lparr>deck_cards := butlast (deck_cards dk)\<rparr>;
                 self = self\<lparr>hand := (hand self)\<lparr>cards := cards (hand self) @ [c]\<rparr>\<rparr>;
                 self = (if card_counting self
                         then self\<lparr>count := count self + count_value c\<rparr> else self);
                 dk = dk\<lparr>cards_left := cards_left dk - 1\<rparr>;
                 self = self\<lparr>hand := (hand self)\<lparr>hand_value :=
                                            hand_value (hand self) + card_value c\<rparr>\<rparr>;
                 self = (if card_eq c ace_instance
                         then self\<lparr>hand := (hand self)\<lparr>aces := aces (hand self) + 1\<rparr>\<rparr>
                         else self);
                 self = self\<lparr>hand := ace_adjust (hand self)\<rparr>;
                 self = (if hand_value (hand self) > 21 then self\<lparr>is_done := True\<rparr>
                         else if length (cards (hand self)) = 2 \<and> hand_value (hand self) = 21
                              then self\<lparr>is_done := True\<rparr>
                              else self)
             in Inr (self, dk)))"

definition search_hard_table :: "env \<Rightarrow> player \<Rightarrow> dealer \<Rightarrow> error + string" where
  "search_hard_table e self d =
     (case hard_table e (hand_value (hand self)) (rank (up_card d)) of
        None \<Rightarrow> Inl KeyError | Some a \<Rightarrow> Inr a)"

definition search_soft_table :: "env \<Rightarrow> player \<Rightarrow> dealer \<Rightarrow> error + string" where
  "search_soft_table e self d =
     (case soft_table e (hand_value (hand self)) (rank (up_card d)) of
        None \<Rightarrow> Inl KeyError | Some a \<Rightarrow> Inr a)"

definition search_split_table :: "env \<Rightarrow> player \<Rightarrow> dealer \<Rightarrow> error + string" where
  "search_split_table e self d =
     (case cards (hand self) of
        [] \<Rightarrow> Inl IndexError
      | c # _ \<Rightarrow>
         (case split_table e (rank c) (rank (up_card d)) of
            None \<Rightarrow> Inl KeyError | Some a \<Rightarrow> Inr a))"

definition get_other_decision :: "env \<Rightarrow> player \<Rightarrow> dealer \<Rightarrow> error + string" where
  "get_other_decision e self d =
     (let deck_length = length (cards (hand self))
      in if aces (hand self) > 0
         then (case search_soft_table e self d of
                 Inl x \<Rightarrow> Inl x
               | Inr decision \<Rightarrow>
                   Inr (if decision = ''d'' \<and> deck_length > 2 then ''h'' else decision))
         else (case search_hard_table e self d of
                 Inl x \<Rightarrow> Inl x
               | Inr decision \<Rightarrow>
                   Inr (if decision = ''d'' \<and> deck_length > 2 then ''h'' else decision)))"

definition get_split_decision :: "env \<Rightarrow> player \<Rightarrow> dealer \<Rightarrow> error + string" where
  "get_split_decision e self d =
     (case cards (hand self) of
        c0 # c1 # _ \<Rightarrow>
          (if length (cards (hand self)) = 2 \<and> card_eq c0 c1
           then search_split_table e self d
           else Inr ''n'')
      | _ \<Rightarrow> Inl IndexError)"

text \<open>
  \<open>doubles\<close>: \<open>self.total_bets += self.current_bet\<close>, \<open>self.current_bet *= 2\<close>,
  \<open>self.is_done = True\<close>.
\<close>

definition doubles :: "player \<Rightarrow> error + player" where
  "doubles self =
     (case py_add (total_bets self) (current_bet self) of
        Inl x \<Rightarrow> Inl x
      | Inr t \<Rightarrow>
         (let self = self\<lparr>total_bets := t\<rparr>
          in case py_mul (current_bet self) (PyInt 2) of
               Inl x \<Rightarrow> Inl x
             | Inr c \<Rightarrow>
                (let self = self\<lparr>current_bet := c\<rparr>
                 in Inr (self\<lparr>is_done := True\<rparr>))))"

definition stand :: "player \<Rightarrow> player" where
  "stand self = (let self = self\<lparr>is_done := True\<rparr> in self\<lparr>stands := stands self + 1\<rparr>)"

definition round_outcome :: "player \<Rightarrow> bool \<Rightarrow> bool \<Rightarrow> bool \<Rightarrow> error + player" where
  "round_outcome self win draw loss =
     (let self = self\<lparr>rounds := rounds self + 1\<rparr>
      in case (if win
               then (let self = self\<lparr>wins := wins self + 1\<rparr>
                     in case py_add (total_earnings self) (current_bet self) of
                          Inl x \<Rightarrow> Inl x
                        | Inr s \<Rightarrow> Inr (self\<lparr>total_earnings := s\<rparr>))
               else if loss
               then (let self = self\<lparr>losses := losses self + 1\<rparr>
                     in case py_sub (total_earnings self) (current_bet self) of
                          Inl x \<Rightarrow> Inl x
                        | Inr s \<Rightarrow> Inr (self\<lparr>total_earnings := s\<rparr>))
               else if draw
               then Inr (self\<lparr>draws := draws self + 1\<rparr>)
               else Inr self) of
           Inl x \<Rightarrow> Inl x
         | Inr self \<Rightarrow>
            (let self = self\<lparr>current_bet := PyInt 0\<rparr>
             in Inr (self\<lparr>is_done := False\<rparr>)))"

text \<open>\<open>gets_blackjack\<close>: \<open>self.current_bet *= 1.5\<close>, then a win.\<close>

definition gets_blackjack :: "player \<Rightarrow> error + player" where
  "gets_blackjack self =
     (case py_mul (current_bet self) (PyFloat (Finite False (3 / 2))) of
        Inl x \<Rightarrow> Inl x
      | Inr b \<Rightarrow>
         (let self = self\<lparr>current_bet := b\<rparr>;
              self = self\<lparr>is_done := True\<rparr>
          in round_outcome self True False False))"

definition goes_bust :: "player \<Rightarrow> error + player" where
  "goes_bust self =
     (let self = self\<lparr>busts := busts self + 1\<rparr> in round_outcome self False False True)"

text \<open>
  \<open>start_round\<close>: the bet is recorded, two cards are drawn, and for a counting player
  with cards left the true count \<open>self.count / (deck.cards_left / 52.0)\<close> is computed
  for the log.
\<close>

definition start_round :: "env \<Rightarrow> player \<Rightarrow> deck \<Rightarrow> number \<Rightarrow> error + (player \<times> deck)" where
  "start_round e self dk bet =
     (let self = self\<lparr>current_bet := bet\<rparr>
      in case py_add (total_bets self) bet of
           Inl x \<Rightarrow> Inl x
         | Inr t \<Rightarrow>
            (let self = self\<lparr>total_bets := t\<rparr>
             in case hit_me e self dk of
                  Inl x \<Rightarrow> Inl x
                | Inr (self, dk) \<Rightarrow>
                   (case hit_me e self dk of
                      Inl x \<Rightarrow> Inl x
                    | Inr (self, dk) \<Rightarrow>
                       (if card_counting self \<and> cards_left dk > 0
                        then (case py_truediv (PyInt (cards_left dk)) (PyFloat (Finite False 52)) of
                                Inl x \<Rightarrow> Inl x
                              | Inr decks \<Rightarrow>
                                 (case py_truediv (PyInt (count self)) decks of
                                    Inl x \<Rightarrow> Inl x
                                  | Inr true_count \<Rightarrow> Inr (self, dk)))
                        else Inr (self, dk)))))"

definition split :: "player \<Rightarrow> player" where
  "split self =
     (let split_player = BasicPlayer ''Dummy'' False;
          split_player = split_player\<lparr>current_bet := current_bet self\<rparr>;
          split_player = split_player\<lparr>total_bets := current_bet self\<rparr>
      in split_player\<lparr>total_earnings := PyInt 0\<rparr>)"

fun add_totals :: "player \<Rightarrow> player option \<Rightarrow> error + player" where
  "add_totals self None = Inr self"
| "add_totals self (Some other) =
     (case py_add (total_bets self) (total_bets other) of
        Inl x \<Rightarrow> Inl x
      | Inr t \<Rightarrow>
         (case py_add (total_earnings self) (total_earnings other) of
            Inl x \<Rightarrow> Inl x
          | Inr s \<Rightarrow>
             Inr (self\<lparr>total_bets := t,
                       total_earnings := s,
                       rounds := rounds self + rounds other,
                       wins := wins self + wins other,
                       draws := draws self + draws other,
                       losses := losses self + losses other,
                       busts := busts self + busts other,
                       stands := stands self + stands other\<rparr>)))"

text \<open>
  \<open>calculate_bet\<close>: \<open>cards_left / 52.0\<close>, \<open>float(zen_count) / decks_remaining\<close> (or
  \<open>float(zen_count)\<close> when no deck remains), \<open>bet_unit * true_count\<close> and
  \<open>max(bet, 0)\<close>, each in Python's arithmetic.
\<close>

definition calculate_bet :: "int \<Rightarrow> int \<Rightarrow> int \<Rightarrow> error + number" where
  "calculate_bet zen_count bet_unit cards_left' =
     (case py_truediv (PyInt cards_left') (PyFloat (Finite False 52)) of
        Inl x \<Rightarrow> Inl x
      | Inr decks_remaining \<Rightarrow>
         (case (if py_gt decks_remaining (PyInt 0)
                then (case py_float (PyInt zen_count) of
                        Inl x \<Rightarrow> Inl x
                      | Inr z \<Rightarrow> py_truediv (PyFloat z) decks_remaining)
                else (case py_float (PyInt zen_count) of
                        Inl x \<Rightarrow> Inl x
                      | Inr z \<Rightarrow> Inr (PyFloat z))) of
            Inl x \<Rightarrow> Inl x
          | Inr true_count \<Rightarrow>
             (case py_mul (PyInt bet_unit) true_count of
                Inl x \<Rightarrow> Inl x
              | Inr bet \<Rightarrow> Inr (py_max bet (PyInt 0)))))"

section \<open>Dealer\<close>

text \<open>
  Modelled from the spec: \<open>Dealer.hit_me(deck, player)\<close> is not among the sources. The
  dealer draws as the player does (reshuffling an empty shoe, adjusting aces, finishing
  on a bust or a two-card 21); the count kept is the one of the player passed in.
\<close>

definition dealer_hit_me :: "env \<Rightarrow> dealer \<Rightarrow> deck \<Rightarrow> player \<Rightarrow> error + (dealer \<times> player \<times> deck)" where
  "dealer_hit_me e self dk p =
     (let p = (if is_empty dk \<and> card_counting p then p\<lparr>count := 0\<rparr> else p);
          dk = refill e dk
      in if deck_cards dk = [] then Inl IndexError
         else (let c = last (deck_cards dk);
                   h = add_card c (dealer_hand self)
               in Inr (self\<lparr>dealer_hand := h,
                            dealer_is_done := (dealer_is_done self \<or> finished h)\<rparr>,
                       (if card_counting p then p\<lparr>count := count p + count_value c\<rparr> else p),
                       dk\<lparr>deck_cards := butlast (deck_cards dk),
                          cards_left := cards_left dk - 1\<rparr>)))"

text \<open>
  Modelled from the spec: \<open>Dealer.start_round(deck, player)\<close> draws two cards; the
  first one dealt becomes \<open>up_card\<close>.
\<close>

definition dealer_start_round :: "env \<Rightarrow> dealer \<Rightarrow> deck \<Rightarrow> player \<Rightarrow> error + (dealer \<times> player \<times> deck)" where
  "dealer_start_round e self dk p =
     (case dealer_hit_me e self dk p of
        Inl x \<Rightarrow> Inl x
      | Inr (self, p, dk) \<Rightarrow>
          dealer_hit_me e (self\<lparr>up_card := last (cards (dealer_hand self))\<rparr>) dk p)"

text \<open>
  Modelled from the spec: \<open>Dealer.get_decision()\<close> hits below 17 and stands from 17 on;
  \<open>Dealer.stand()\<close> and \<open>Dealer.goes_bust()\<close> finish the dealer's hand.
\<close>

definition get_decision :: "dealer \<Rightarrow> string" where
  "get_decision self = (if hand_value (dealer_hand self) < 17 then ''h'' else ''s'')"

definition dealer_stand :: "dealer \<Rightarrow> dealer" where
  "dealer_stand self = self\<lparr>dealer_is_done := True\<rparr>"

definition dealer_goes_bust :: "dealer \<Rightarrow> dealer" where
  "dealer_goes_bust self = self\<lparr>dealer_is_done := True\<rparr>"

section \<open>The round\<close>

text \<open>
  The two \<open>while\<close> loops of \<open>round\<close> may run forever (a table entry other than
  \<open>'h'\<close>, \<open>'s'\<close> or \<open>'d'\<close> changes nothing), so each takes fuel: \<open>None\<close> is a loop
  still running when the fuel is spent, \<open>Some (Inl x)\<close> an exception, \<open>Some (Inr s)\<close>
  the state after the loop.
\<close>

text \<open>Lines 71 to 75: the second hand of split aces restarts from one ace and draws.\<close>

definition ace_split_hit :: "env \<Rightarrow> player \<Rightarrow> deck \<Rightarrow> player option \<Rightarrow> error + (player \<times> deck)" where
  "ace_split_hit e p dk dummy =
     (if dummy \<noteq> None
      then (case cards (hand p) of
              [] \<Rightarrow> Inl IndexError
            | c # _ \<Rightarrow>
               (if rank c = ''ace''
                then hit_me e (p\<lparr>hand := (hand p)\<lparr>hand_value := 11, aces := 1\<rparr>\<rparr>) dk
                else Inr (p, dk)))
      else Inr (p, dk))"

text \<open>Lines 78 to 88: the player decision loop.\<close>

fun player_loop :: "nat \<Rightarrow> env \<Rightarrow> player \<Rightarrow> dealer \<Rightarrow> deck \<Rightarrow> (error + (player \<times> deck)) option" where
  "player_loop 0 e p d dk = (if is_done p then Some (Inr (p, dk)) else None)"
| "player_loop (Suc n) e p d dk =
     (if is_done p then Some (Inr (p, dk))
      else (case get_other_decision e p d of
              Inl x \<Rightarrow> Some (Inl x)
            | Inr decision \<Rightarrow>
               (if decision = ''h''
                then (case hit_me e p dk of
                        Inl x \<Rightarrow> Some (Inl x)
                      | Inr (p', dk') \<Rightarrow> player_loop n e p' d dk')
                else if decision = ''s''
                then player_loop n e (stand p) d dk
                else if decision = ''d''
                then (case hit_me e p dk of
                        Inl x \<Rightarrow> Some (Inl x)
                      | Inr (p', dk') \<Rightarrow>
                         (case doubles p' of
                            Inl x \<Rightarrow> Some (Inl x)
                          | Inr p'' \<Rightarrow> player_loop n e p'' d dk'))
                else player_loop n e p d dk)))"

text \<open>Lines 92 to 99: the dealer decision loop.\<close>

fun dealer_loop :: "nat \<Rightarrow> env \<Rightarrow> player \<Rightarrow> dealer \<Rightarrow> deck \<Rightarrow> (error + (dealer \<times> player \<times> deck)) option" where
  "dealer_loop 0 e p d dk = (if dealer_is_done d then Some (Inr (d, p, dk)) else None)"
| "dealer_loop (Suc n) e p d dk =
     (if dealer_is_done d then Some (Inr (d, p, dk))
      else (if get_decision d = ''h''
            then (case dealer_hit_me e d dk p of
                    Inl x \<Rightarrow> Some (Inl x)
                  | Inr (d', p', dk') \<Rightarrow> dealer_loop n e p' d' dk')
            else if get_decision d = ''s''
            then dealer_loop n e p (dealer_stand d) dk
            else dealer_loop n e p d dk))"

text \<open>Lines 91 to 99: the guard \<open>if player.hand.value < 21\<close> around the dealer loop.\<close>

definition dealer_turn :: "nat \<Rightarrow> env \<Rightarrow> player \<Rightarrow> dealer \<Rightarrow> deck \<Rightarrow> (error + (dealer \<times> player \<times> deck)) option" where
  "dealer_turn n e p d dk =
     (if hand_value (hand p) < 21 then dealer_loop n e p d dk else Some (Inr (d, p, dk)))"

text \<open>Lines 102 to 122: settlement.\<close>

definition settle :: "player \<Rightarrow> dealer \<Rightarrow> error + (player \<times> dealer)" where
  "settle p d =
     (if hand_value (hand p) > 21
      then (case goes_bust p of Inl x \<Rightarrow> Inl x | Inr p \<Rightarrow> Inr (p, d))
      else if hand_value (dealer_hand d) > 21
      then (let d = dealer_goes_bust d
            in case round_outcome p True False False of
                 Inl x \<Rightarrow> Inl x
               | Inr p \<Rightarrow> Inr (p, d))
      else if hand_value (hand p) = 21 \<and> length (cards (hand p)) = 2
      then (case gets_blackjack p of Inl x \<Rightarrow> Inl x | Inr p \<Rightarrow> Inr (p, d))
      else if hand_value (hand p) > hand_value (dealer_hand d)
      then (case round_outcome p True False False of Inl x \<Rightarrow> Inl x | Inr p \<Rightarrow> Inr (p, d))
      else if hand_value (hand p) < hand_value (dealer_hand d)
      then (case round_outcome p False False True of Inl x \<Rightarrow> Inl x | Inr p \<Rightarrow> Inr (p, d))
      else (case round_outcome p False True False of Inl x \<Rightarrow> Inl x | Inr p \<Rightarrow> Inr (p, d)))"

text \<open>Lines 132 to 136: both hands are replaced by empty ones, the dealer's flag reset.\<close>

definition clear_hands :: "player \<Rightarrow> dealer \<Rightarrow> player \<times> dealer" where
  "clear_hands p d = (p\<lparr>hand := Hand\<rparr>, d\<lparr>dealer_hand := Hand, dealer_is_done := False\<rparr>)"

text \<open>\<open>round(player, dealer, deck, dummy)\<close>.\<close>

definition round_fn :: "nat \<Rightarrow> env \<Rightarrow> player \<Rightarrow> dealer \<Rightarrow> deck \<Rightarrow> player option \<Rightarrow> (error + (player \<times> dealer \<times> deck)) option" where
  "round_fn n e p d dk dummy =
     (case ace_split_hit e p dk dummy of
        Inl x \<Rightarrow> Some (Inl x)
      | Inr (p, dk) \<Rightarrow>
         (case player_loop n e p d dk of
            None \<Rightarrow> None
          | Some (Inl x) \<Rightarrow> Some (Inl x)
          | Some (Inr (p, dk)) \<Rightarrow>
             (case dealer_turn n e p d dk of
                None \<Rightarrow> None
              | Some (Inl x) \<Rightarrow> Some (Inl x)
              | Some (Inr (d, p, dk)) \<Rightarrow>
                 (case settle p d of
                    Inl x \<Rightarrow> Some (Inl x)
                  | Inr (p, d) \<Rightarrow>
                     (let (p, d) = clear_hands p d
                      in Some (Inr (p, d, dk)))))))"

section \<open>Starting a round\<close>

text \<open>Lines 22 to 32: the bet is placed and two cards each are dealt.\<close>

definition deal :: "env \<Rightarrow> player \<Rightarrow> dealer \<Rightarrow> deck \<Rightarrow> error + (player \<times> dealer \<times> deck)" where
  "deal e p d dk =
     (let bet = 1000
      in case (if card_counting p
               then (case calculate_bet (count p) bet (cards_left dk) of
                       Inl x \<Rightarrow> Inl x
                     | Inr adjusted_bet \<Rightarrow> start_round e p dk adjusted_bet)
               else start_round e p dk (PyInt bet)) of
           Inl x \<Rightarrow> Inl x
         | Inr (p, dk) \<Rightarrow>
            (case dealer_start_round e d dk p of
               Inl x \<Rightarrow> Inl x
             | Inr (d, p, dk) \<Rightarrow> Inr (p, d, dk)))"

text \<open>
  Lines 38 to 48: the dummy is created, the player's last card moves to the dummy's
  hand, both hands draw, and the totals are patched when the moved card is no ace.
\<close>

definition split_hands :: "env \<Rightarrow> player \<Rightarrow> deck \<Rightarrow> error + (player \<times> player \<times> deck)" where
  "split_hands e p dk =
     (let dummy = split p
      in case cards (hand p) of
           [] \<Rightarrow> Inl IndexError
         | _ # _ \<Rightarrow>
            (let c = last (cards (hand p));
                 p = p\<lparr>hand := (hand p)\<lparr>cards := butlast (cards (hand p))\<rparr>\<rparr>;
                 dummy = dummy\<lparr>hand := (hand dummy)\<lparr>cards := cards (hand dummy) @ [c]\<rparr>\<rparr>
             in case hit_me e p dk of
                  Inl x \<Rightarrow> Inl x
                | Inr (p, dk) \<Rightarrow>
                   (case hit_me e dummy dk of
                      Inl x \<Rightarrow> Inl x
                    | Inr (dummy, dk) \<Rightarrow>
                       (if rank c \<noteq> ''ace''
                        then Inr (p\<lparr>hand := (hand p)\<lparr>hand_value :=
                                          hand_value (hand p) - card_value c\<rparr>\<rparr>,
                                  dummy\<lparr>hand := (hand dummy)\<lparr>hand_value :=
                                          hand_value (hand dummy) + card_value c\<rparr>\<rparr>,
                                  dk)
                        else Inr (p, dummy, dk)))))"

text \<open>\<open>init_round(player, dealer, deck)\<close>.\<close>

definition init_round :: "nat \<Rightarrow> env \<Rightarrow> player \<Rightarrow> dealer \<Rightarrow> deck \<Rightarrow> (error + (player \<times> dealer \<times> deck)) option" where
  "init_round n e p d dk =
     (case deal e p d dk of
        Inl x \<Rightarrow> Some (Inl x)
      | Inr (p, d, dk) \<Rightarrow>
         (case get_split_decision e p d of
            Inl x \<Rightarrow> Some (Inl x)
          | Inr decision \<Rightarrow>
             (if decision = ''y''
              then (case split_hands e p dk of
                      Inl x \<Rightarrow> Some (Inl x)
                    | Inr (p, dummy, dk) \<Rightarrow>
                       (case round_fn n e dummy d dk (Some dummy) of
                          None \<Rightarrow> None
                        | Some (Inl x) \<Rightarrow> Some (Inl x)
                        | Some (Inr (dummy, d, dk)) \<Rightarrow>
                           (case add_totals p (Some dummy) of
                              Inl x \<Rightarrow> Some (Inl x)
                            | Inr p \<Rightarrow> round_fn n e p d dk (Some dummy))))
              else round_fn n e p d dk None)))"

section \<open>Concrete shoes\<close>

text \<open>
  Modelled from the spec: \<open>Card(rank, suit)\<close> gives a card the worth of its rank (ace 11,
  court cards 10) and a Hi-Lo style counting weight.
\<close>

definition rank_table :: "(string \<times> int \<times> int) list" where
  "rank_table =
     [(''2'', 2, 1), (''3'', 3, 1), (''4'', 4, 1), (''5'', 5, 1), (''6'', 6, 1),
      (''7'', 7, 0), (''8'', 8, 0), (''9'', 9, 0), (''10'', 10, - 1), (''jack'', 10, - 1),
      (''queen'', 10, - 1), (''king'', 10, - 1), (''ace'', 11, - 1)]"

definition Card :: "string \<Rightarrow> string \<Rightarrow> card" where
  "Card r s =
     (case map_of rank_table r of
        Some (v, w) \<Rightarrow> \<lparr>rank = r, suit = s, card_value = v, count_value = w\<rparr>
      | None \<Rightarrow> \<lparr>rank = r, suit = s, card_value = 0, count_value = 0\<rparr>)"

text \<open>
  Tables for the examples: hard totals stand from 17, double on 11 and hit otherwise;
  soft totals stand from 18; eights and aces are split. A reshuffle yields one deck's
  spades.
\<close>

definition ex_env :: env where
  "ex_env =
     \<lparr>hard_table = (\<lambda>v r. Some (if v \<ge> 17 then ''s'' else if v = 11 then ''d'' else ''h'')),
      soft_table = (\<lambda>v r. Some (if v \<ge> 18 then ''s'' else ''h'')),
      split_table = (\<lambda>r c. Some (if r = ''8'' \<or> r = ''ace'' then ''y'' else ''n'')),
      shuffled = (\<lambda>s n. map (\<lambda>(r, v, w). Card r ''spades'') rank_table)\<rparr>"

text \<open>A dealer between two rounds: the hand is empty, \<open>up_card\<close> is left from before.\<close>

definition ex_dealer :: dealer where
  "ex_dealer = \<lparr>dealer_hand = Hand, dealer_is_done = False, up_card = Card ''2'' ''clubs''\<rparr>"

text \<open>
  A shoe that deals a pair of eights against 10 and 6; after the split the player
  draws an ace and the dummy a 10.
\<close>

definition split_draws :: "card list" where
  "split_draws =
     [Card ''8'' ''hearts'', Card ''8'' ''spades'', Card ''10'' ''clubs'', Card ''6'' ''hearts'',
      Card ''ace'' ''clubs'', Card ''10'' ''hearts'', Card ''king'' ''clubs'', Card ''9'' ''clubs'',
      Card ''5'' ''clubs'', Card ''7'' ''clubs'', Card ''2'' ''clubs'', Card ''3'' ''clubs'']"

definition split_deck :: deck where
  "split_deck =
     \<lparr>deck_cards = rev (split_draws @ [Card ''4'' ''clubs'', Card ''queen'' ''clubs'']),
      number_of_decks = 6, cards_left = 14, seed = 0\<rparr>"

text \<open>A shoe that deals a pair of aces against 10 and 6.\<close>

definition aces_deck :: deck where
  "aces_deck =
     \<lparr>deck_cards =
        rev [Card ''ace'' ''hearts'', Card ''ace'' ''spades'', Card ''10'' ''clubs'',
             Card ''6'' ''hearts'', Card ''5'' ''clubs'', Card ''7'' ''hearts'',
             Card ''9'' ''clubs'', Card ''3'' ''clubs'', Card ''4'' ''clubs''],
      number_of_decks = 6, cards_left = 9, seed = 0\<rparr>"

text \<open>
  A shoe that deals 5 and 6 against 10 and 6; the next cards are a 10 and a 5.
\<close>

definition double_deck :: deck where
  "double_deck =
     \<lparr>deck_cards =
        rev [Card ''5'' ''hearts'', Card ''6'' ''spades'', Card ''10'' ''clubs'',
             Card ''6'' ''hearts'', Card ''10'' ''hearts'', Card ''5'' ''clubs'',
             Card ''9'' ''clubs'', Card ''3'' ''clubs''],
      number_of_decks = 6, cards_left = 8, seed = 0\<rparr>"

text \<open>
  The state \<open>deal\<close> reaches from \<open>double_deck\<close>: the player holds 5 and 6 on a bet
  of 1000, the dealer 10 and 6.
\<close>

definition dealt_player :: player where
  "dealt_player =
     (BasicPlayer ''Player'' False)
       \<lparr>hand := \<lparr>cards = [Card ''5'' ''hearts'', Card ''6'' ''spades''],
                 hand_value = 11, aces = 0\<rparr>,
        current_bet := PyInt 1000, total_bets := PyInt 1000\<rparr>"

definition dealt_dealer :: dealer where
  "dealt_dealer =
     \<lparr>dealer_hand = \<lparr>cards = [Card ''10'' ''clubs'', Card ''6'' ''hearts''],
                     hand_value = 16, aces = 0\<rparr>,
      dealer_is_done = False, up_card = Card ''10'' ''clubs''\<rparr>"

definition dealt_deck :: deck where
  "dealt_deck =
     \<lparr>deck_cards = rev [Card ''10'' ''hearts'', Card ''5'' ''clubs'', Card ''9'' ''clubs'',
                        Card ''3'' ''clubs''],
      number_of_decks = 6, cards_left = 4, seed = 0\<rparr>"



text \<open>
  Money of a counting player: the bets \<open>calculate_bet\<close> returns for a count of 1 with
  3 and with 7 cards left, 17333.333333333332 and 7428.571428571428.
\<close>

definition bet_3_left :: number where
  "bet_3_left = PyFloat (Finite False (4764550387029333 / 274877906944))"

definition bet_7_left :: number where
  "bet_7_left = PyFloat (Finite False (8167800663478857 / 1099511627776))"

text \<open>
  States at settlement: a player over 21 against a dealer over 21, and a counting player
  with a two-card 21 on a bet of 7428.571428571428 against a dealer standing on 19.
\<close>

definition over_player :: player where
  "over_player =
     (BasicPlayer ''Player'' False)
       \<lparr>hand := \<lparr>cards = [Card ''10'' ''hearts'', Card ''5'' ''clubs'', Card ''7'' ''clubs''],
                 hand_value = 22, aces = 0\<rparr>,
        is_done := True, current_bet := PyInt 1000, total_bets := PyInt 1000\<rparr>"

definition over_dealer :: dealer where
  "over_dealer =
     ex_dealer\<lparr>dealer_hand :=
        \<lparr>cards = [Card ''10'' ''clubs'', Card ''5'' ''hearts'', Card ''king'' ''clubs''],
         hand_value = 25, aces = 0\<rparr>\<rparr>"

definition natural_player :: player where
  "natural_player =
     (BasicPlayer ''Player'' True)
       \<lparr>hand := \<lparr>cards = [Card ''ace'' ''hearts'', Card ''king'' ''clubs''],
                 hand_value = 21, aces = 1\<rparr>,
        is_done := True, current_bet := bet_7_left, total_bets := bet_7_left\<rparr>"

definition pat_dealer :: dealer where
  "pat_dealer =
     ex_dealer\<lparr>dealer_hand :=
        \<lparr>cards = [Card ''10'' ''clubs'', Card ''9'' ''hearts''], hand_value = 19, aces = 0\<rparr>,
       dealer_is_done := True\<rparr>"

text \<open>
  A counting player who has won 17333.333333333332 and stands to win a bet of
  7428.571428571428.
\<close>

definition winning_player :: player where
  "winning_player =
     (BasicPlayer ''Player'' True)
       \<lparr>is_done := True, current_bet := bet_7_left, total_bets := bet_3_left,
        total_earnings := bet_3_left, rounds := 1, wins := 1\<rparr>"

section \<open>Rounding to a double\<close>

lemma pow2_powi: "pow2 k = 2 powi k"
  by (simp add: pow2_def power_int_def field_simps)

lemma pow2_pos: "0 < pow2 k"
  by (simp add: pow2_powi)

lemma pow2_add: "pow2 (a + b) = pow2 a * pow2 b"
  by (simp add: pow2_powi power_int_add)

lemma pow2_mono: "a \<le> b \<Longrightarrow> pow2 a \<le> pow2 b"
  by (simp add: pow2_powi power_int_increasing)

lemma pow2_strict_mono: "a < b \<Longrightarrow> pow2 a < pow2 b"
  by (simp add: pow2_powi power_int_strict_increasing)

lemma pow2_nat: "pow2 (int n) = 2 ^ n"
  by (simp add: pow2_def)

lemma ilog2_bounds:
  assumes "0 < q"
  shows "pow2 (ilog2 q) \<le> q" and "q < pow2 (ilog2 q + 1)"
proof -
  have "pow2 (ilog2 q) \<le> q \<and> q < pow2 (ilog2 q + 1)"
  proof (cases "1 \<le> q")
    case True
    define n where "n = \<lfloor>q\<rfloor>"
    have n: "0 < n" "of_int n \<le> q" "q < of_int n + 1"
      using True floor_correct[of q] by (auto simp: n_def)
    from bitlen_bounds[OF n(1)] have b: "2 ^ nat (bitlen n - 1) \<le> n" "n < 2 ^ nat (bitlen n)"
      by auto
    have b1: "1 \<le> bitlen n"
      using n(1) by (auto simp: bitlen_alt_def)
    have e: "ilog2 q = bitlen n - 1"
      using True by (simp add: ilog2_def n_def)
    have "pow2 (bitlen n - 1) = of_int (2 ^ nat (bitlen n - 1))"
      using b1 by (simp add: pow2_def)
    also have "\<dots> \<le> of_int n"
      using b(1) by (simp only: of_int_le_iff)
    finally have lo: "pow2 (ilog2 q) \<le> q"
      using n(2) e by simp
    have "n + 1 \<le> 2 ^ nat (bitlen n)"
      using b(2) by simp
    then have "(of_int (n + 1) :: rat) \<le> of_int (2 ^ nat (bitlen n))"
      by (simp only: of_int_le_iff)
    moreover have "pow2 (bitlen n) = of_int (2 ^ nat (bitlen n))"
      using b1 by (simp add: pow2_def)
    ultimately have "q < pow2 (ilog2 q + 1)"
      using n(3) e by simp
    with lo show ?thesis ..
  next
    case False
    define n where "n = \<lceil>1 / q\<rceil> - 1"
    have q1: "1 < 1 / q"
      using False assms by (simp add: field_simps)
    have n: "0 < n" "of_int n < 1 / q" "1 / q \<le> of_int n + 1"
    proof -
      have "1 < \<lceil>1 / q\<rceil>" using q1 by (simp add: less_ceiling_iff)
      then show "0 < n" by (simp add: n_def)
      show "of_int n < 1 / q"
        unfolding n_def using ceiling_correct[of "1 / q"] by simp
      show "1 / q \<le> of_int n + 1"
        unfolding n_def using ceiling_correct[of "1 / q"] by simp
    qed
    from bitlen_bounds[OF n(1)] have b: "2 ^ nat (bitlen n - 1) \<le> n" "n < 2 ^ nat (bitlen n)"
      by auto
    have b1: "1 \<le> bitlen n"
      using n(1) by (auto simp: bitlen_alt_def)
    have e: "ilog2 q = - bitlen n"
      using False by (simp add: ilog2_def n_def)
    have "n + 1 \<le> 2 ^ nat (bitlen n)"
      using b(2) by simp
    then have "(of_int (n + 1) :: rat) \<le> of_int (2 ^ nat (bitlen n))"
      by (simp only: of_int_le_iff)
    then have "1 / q \<le> 2 ^ nat (bitlen n)"
      using n(3) by simp
    then have "1 / 2 ^ nat (bitlen n) \<le> q"
      using assms by (simp add: field_simps)
    moreover have "pow2 (- bitlen n) = 1 / 2 ^ nat (bitlen n)"
      using b1 by (simp add: pow2_def)
    ultimately have lo: "pow2 (ilog2 q) \<le> q"
      using e by simp
    have "(of_int (2 ^ nat (bitlen n - 1)) :: rat) \<le> of_int n"
      using b(1) by (simp only: of_int_le_iff)
    then have "(2 :: rat) ^ nat (bitlen n - 1) \<le> of_int n"
      by (simp only: of_int_power of_int_numeral)
    then have "2 ^ nat (bitlen n - 1) < 1 / q"
      using n(2) by linarith
    then have "q < 1 / 2 ^ nat (bitlen n - 1)"
      using assms by (simp add: field_simps)
    moreover have "pow2 (- bitlen n + 1) = 1 / 2 ^ nat (bitlen n - 1)"
      using b1 by (auto simp: pow2_def)
    ultimately have "q < pow2 (ilog2 q + 1)"
      using e by simp
    with lo show ?thesis ..
  qed
  then show "pow2 (ilog2 q) \<le> q" and "q < pow2 (ilog2 q + 1)"
    by simp_all
qed

lemma ilog2_unique:
  assumes "pow2 e \<le> q" "q < pow2 (e + 1)"
  shows "ilog2 q = e"
proof -
  have q: "0 < q"
    using assms(1) pow2_pos[of e] by simp
  have "pow2 (ilog2 q) < pow2 (e + 1)"
    using ilog2_bounds(1)[OF q] assms(2) by simp
  then have "ilog2 q < e + 1"
    using pow2_mono[of "e + 1" "ilog2 q"] by (cases "ilog2 q < e + 1") auto
  moreover have "pow2 e < pow2 (ilog2 q + 1)"
    using ilog2_bounds(2)[OF q] assms(1) by simp
  then have "e < ilog2 q + 1"
    using pow2_mono[of "ilog2 q + 1" e] by (cases "e < ilog2 q + 1") auto
  ultimately show ?thesis by simp
qed

lemma round_half_even_error: "\<bar>of_int (round_half_even x) - x\<bar> \<le> 1 / 2"
proof -
  have "of_int \<lfloor>x\<rfloor> \<le> x" "x < of_int \<lfloor>x\<rfloor> + 1"
    using floor_correct[of x] by auto
  then show ?thesis
    by (auto simp: round_half_even_def Let_def abs_le_iff)
qed

lemma round_half_even_of_int: "round_half_even (of_int n) = n"
  by (simp add: round_half_even_def)

lemma round_mag_normal:
  assumes "pow2 (- 1022) \<le> q" "q < pow2 1023"
  obtains v where "round_mag q = Some v" "\<bar>v - q\<bar> \<le> q / 2 ^ 53"
proof -
  have q: "0 < q"
    using assms(1) pow2_pos[of "- 1022"] by simp
  define e where "e = ilog2 q"
  have lo: "- 1022 \<le> e"
  proof (rule ccontr)
    assume "\<not> - 1022 \<le> e"
    then have "e + 1 \<le> - 1022" by simp
    then have "pow2 (e + 1) \<le> pow2 (- 1022)" by (rule pow2_mono)
    with ilog2_bounds(2)[OF q] assms(1) show False by (simp add: e_def)
  qed
  have hi: "e \<le> 1022"
  proof (rule ccontr)
    assume "\<not> e \<le> 1022"
    then have "1023 \<le> e" by simp
    then have "pow2 1023 \<le> pow2 e" by (rule pow2_mono)
    with ilog2_bounds(1)[OF q] assms(2) show False by (simp add: e_def)
  qed
  define u where "u = pow2 (e - 52)"
  define r where "r = round_half_even (q / u)"
  have u: "0 < u" by (simp add: u_def pow2_pos)
  have rm: "round_mag q = Some (of_int r * u)"
    using q lo hi by (simp add: round_mag_def Let_def e_def[symmetric] u_def r_def max_def)
  have "\<bar>of_int r - q / u\<bar> \<le> 1 / 2"
    unfolding r_def by (rule round_half_even_error)
  then have "\<bar>of_int r - q / u\<bar> * u \<le> 1 / 2 * u"
    using u by (simp add: mult_right_mono)
  moreover have "\<bar>of_int r - q / u\<bar> * u = \<bar>of_int r * u - q\<bar>"
    using u by (simp add: abs_mult_pos[symmetric] field_simps del: abs_mult_pos)
  moreover have "1 / 2 * u = pow2 e / 2 ^ 53"
  proof -
    have "pow2 (e - 52) = pow2 e * pow2 (- 52)"
      using pow2_add[of e "- 52"] by simp
    then show ?thesis by (simp add: u_def pow2_def)
  qed
  moreover have "pow2 e / 2 ^ 53 \<le> q / 2 ^ 53"
    using ilog2_bounds(1)[OF q] by (simp add: e_def divide_right_mono)
  ultimately have "\<bar>of_int r * u - q\<bar> \<le> q / 2 ^ 53"
    by simp
  with rm show ?thesis by (rule that)
qed

lemma round_mag_int:
  assumes "0 \<le> i" "i < 2 ^ 53"
  shows "round_mag (of_int i) = Some (of_int i)"
proof (cases "i = 0")
  case True
  then show ?thesis by (simp add: round_mag_def)
next
  case False
  define q :: rat where "q = of_int i"
  have q: "1 \<le> q" "q < 2 ^ 53"
  proof -
    show "1 \<le> q" using assms(1) False by (simp add: q_def)
    have "(of_int i :: rat) < of_int (2 ^ 53)"
      using assms(2) by (simp only: of_int_less_iff)
    then show "q < 2 ^ 53" by (simp add: q_def)
  qed
  define e where "e = ilog2 q"
  have q0: "0 < q" using q(1) by simp
  have lo: "0 \<le> e"
  proof (rule ccontr)
    assume "\<not> 0 \<le> e"
    then have "e + 1 \<le> 0" by simp
    then have "pow2 (e + 1) \<le> pow2 0" by (rule pow2_mono)
    with ilog2_bounds(2)[OF q0] q(1) show False by (simp add: e_def pow2_def)
  qed
  have hi: "e \<le> 52"
  proof (rule ccontr)
    assume "\<not> e \<le> 52"
    then have "53 \<le> e" by simp
    then have "pow2 53 \<le> pow2 e" by (rule pow2_mono)
    with ilog2_bounds(1)[OF q0] q(2) show False by (simp add: e_def pow2_def)
  qed
  define k where "k = nat (52 - e)"
  have u: "pow2 (max e (- 1022) - 52) = 1 / 2 ^ k"
    using lo hi by (auto simp: pow2_def k_def max_def)
  have "q * 2 ^ k = of_int (i * 2 ^ k)"
    by (simp add: q_def)
  then have r: "round_half_even (q * 2 ^ k) = i * 2 ^ k"
    by (simp only: round_half_even_of_int)
  have "round_mag q = Some (of_int (i * 2 ^ k) * (1 / 2 ^ k))"
    using q0 hi by (simp add: round_mag_def Let_def e_def[symmetric] u r del: of_int_mult)
  then show ?thesis by (simp add: q_def)
qed

lemma to_nearest_range:
  assumes "q = 0 \<or> (1 / 2 ^ 70 \<le> q \<and> q \<le> 2 ^ 200)"
  obtains v where "to_nearest s q = Finite s v" "q - q / 2 ^ 53 \<le> v" "v \<le> q + q / 2 ^ 53"
proof (cases "q = 0")
  case True
  then have "to_nearest s q = Finite s 0" by (simp add: to_nearest_def round_mag_def)
  with True show ?thesis by (intro that[of 0]) simp_all
next
  case False
  with assms have r: "1 / 2 ^ 70 \<le> q" "q \<le> 2 ^ 200" by simp_all
  have "pow2 (- 1022) \<le> pow2 (- 70)" by (rule pow2_mono) simp
  also have "pow2 (- 70) = 1 / 2 ^ 70" by (simp add: pow2_def)
  finally have lo: "pow2 (- 1022) \<le> q" using r(1) by simp
  have "pow2 200 < pow2 1023" by (rule pow2_strict_mono) simp
  moreover have "pow2 200 = 2 ^ 200" by (simp add: pow2_def)
  ultimately have hi: "q < pow2 1023" using r(2) by simp
  from round_mag_normal[OF lo hi] obtain v where
    v: "round_mag q = Some v" "\<bar>v - q\<bar> \<le> q / 2 ^ 53" by blast
  from v(1) have "to_nearest s q = Finite s v" by (simp add: to_nearest_def)
  moreover from v(2) have "v - q \<le> q / 2 ^ 53" "- (v - q) \<le> q / 2 ^ 53"
    by (simp_all only: abs_le_iff)
  then have "q - q / 2 ^ 53 \<le> v" "v \<le> q + q / 2 ^ 53"
    by linarith+
  ultimately show ?thesis by (rule that)
qed

lemma py_float_small:
  assumes "\<bar>i\<bar> < 2 ^ 53"
  shows "py_float (PyInt i) = Inr (Finite (i < 0) \<bar>of_int i\<bar>)"
proof -
  have "round_mag (of_int \<bar>i\<bar>) = Some (of_int \<bar>i\<bar>)"
    using assms by (intro round_mag_int) simp_all
  then show ?thesis by (simp add: py_float_def)
qed

lemma py_max_zero_val:
  assumes "0 \<le> m"
  shows "py_val (py_max (PyFloat (Finite s m)) (PyInt 0)) = (if s then 0 else m)"
  using assms by (auto simp: py_max_def py_gt_def position_def)

lemma bet_product:
  assumes b: "0 \<le> b" "b < 2 ^ 53" and t: "t = 0 \<or> (1 / 2 ^ 62 \<le> t \<and> t \<le> 2 ^ 62)"
  obtains m where
    "py_mul (PyInt b) (PyFloat (Finite s t)) = Inr (PyFloat (Finite s m))"
    "of_int b * t - of_int b * t / 2 ^ 53 \<le> m" "m \<le> of_int b * t + of_int b * t / 2 ^ 53"
proof -
  define B :: rat where "B = of_int b"
  have B: "0 \<le> B" "B < 2 ^ 53" "B = 0 \<or> 1 \<le> B"
  proof -
    show "0 \<le> B" using b(1) by (simp add: B_def)
    have "(of_int b :: rat) < of_int (2 ^ 53)" using b(2) by (simp only: of_int_less_iff)
    then show "B < 2 ^ 53" by (simp add: B_def)
    have "b = 0 \<or> 1 \<le> b" using b(1) by auto
    then show "B = 0 \<or> 1 \<le> B" by (auto simp: B_def)
  qed
  have "B * t = 0 \<or> (1 / 2 ^ 70 \<le> B * t \<and> B * t \<le> 2 ^ 200)"
  proof (cases "B = 0 \<or> t = 0")
    case True
    then show ?thesis by auto
  next
    case False
    with B(3) t have B1: "1 \<le> B" and t1: "1 / 2 ^ 62 \<le> t" "t \<le> 2 ^ 62" by auto
    have "1 * (1 / 2 ^ 62) \<le> B * t"
      using B1 t1(1) by (intro mult_mono) simp_all
    then have lo: "1 / 2 ^ 70 \<le> B * t" by simp
    have "B * t \<le> 2 ^ 53 * 2 ^ 62"
      using B(1,2) t1 by (intro mult_mono) simp_all
    then have "B * t \<le> 2 ^ 200" by simp
    with lo show ?thesis by simp
  qed
  from to_nearest_range[OF this, of s] obtain m where
    m: "to_nearest s (B * t) = Finite s m" "B * t - B * t / 2 ^ 53 \<le> m"
       "m \<le> B * t + B * t / 2 ^ 53" by blast
  have "py_float (PyInt b) = Inr (Finite False B)"
    using py_float_small[of b] b by (simp add: B_def)
  then have pm: "py_mul (PyInt b) (PyFloat (Finite s t)) = Inr (PyFloat (Finite s m))"
    using m(1) by (simp add: float_op_def py_float_def)
  show ?thesis
    using m(2,3) by (intro that[OF pm]) (simp_all only: B_def)
qed

lemma true_count_bounds:
  assumes c: "\<bar>c\<bar> < 2 ^ 53" and n: "0 < n" "n < 2 ^ 53"
  obtains d t where
    "py_truediv (PyInt n) (PyFloat (Finite False 52)) = Inr (PyFloat (Finite False d))"
    "0 < d"
    "py_truediv (PyFloat (Finite (c < 0) \<bar>of_int c\<bar>)) (PyFloat (Finite False d)) =
       Inr (PyFloat (Finite (c < 0) t))"
    "t = 0 \<or> (1 / 2 ^ 62 \<le> t \<and> t \<le> 2 ^ 62)"
    "(1 - 1 / 2 ^ 52) * (\<bar>of_int c\<bar> / (of_int n / 52)) \<le> t"
    "t \<le> (1 + 1 / 2 ^ 51) * (\<bar>of_int c\<bar> / (of_int n / 52))"
proof -
  define N :: rat where "N = of_int n"
  define C :: rat where "C = \<bar>of_int c\<bar>"
  define D where "D = N / 52"
  define X where "X = C / D"
  have N: "1 \<le> N" "N < 2 ^ 53"
  proof -
    show "1 \<le> N" using n(1) by (simp add: N_def)
    have "(of_int n :: rat) < of_int (2 ^ 53)" using n(2) by (simp only: of_int_less_iff)
    then show "N < 2 ^ 53" by (simp add: N_def)
  qed
  have C: "0 \<le> C" "C < 2 ^ 53" "C = 0 \<or> 1 \<le> C"
  proof -
    show "0 \<le> C" by (simp add: C_def)
    have "(of_int \<bar>c\<bar> :: rat) < of_int (2 ^ 53)" using c by (simp only: of_int_less_iff)
    then show "C < 2 ^ 53" by (simp add: C_def)
    have "\<bar>c\<bar> = 0 \<or> 1 \<le> \<bar>c\<bar>" by auto
    then have "(of_int \<bar>c\<bar> :: rat) = 0 \<or> (1 :: rat) \<le> of_int \<bar>c\<bar>"
      by (metis of_int_0 of_int_1_le_iff)
    then show "C = 0 \<or> 1 \<le> C" by (simp add: C_def)
  qed
  have D: "1 / 52 \<le> D" "D \<le> 2 ^ 53" "0 < D"
    using N by (simp_all add: D_def)
  then have "D = 0 \<or> (1 / 2 ^ 70 \<le> D \<and> D \<le> 2 ^ 200)"
    by simp
  from to_nearest_range[OF this, of False] obtain d where
    d: "to_nearest False D = Finite False d" "D - D / 2 ^ 53 \<le> d" "d \<le> D + D / 2 ^ 53"
    by blast
  have d0: "0 < d" "1 / 2 ^ 7 \<le> d" "d \<le> 2 ^ 54"
    using d(2,3) D by simp_all
  have pf: "py_float (PyInt n) = Inr (Finite False N)"
    using py_float_small[of n] n by (simp add: N_def)
  have decks: "py_truediv (PyInt n) (PyFloat (Finite False 52)) = Inr (PyFloat (Finite False d))"
    using d(1) pf by (simp add: py_truediv_def py_float_def is_zero_def D_def)
  text \<open>The quotient before rounding.\<close>
  define Q where "Q = C / d"
  have DQ: "D \<le> (1 + 1 / 2 ^ 52) * d" "(1 - 1 / 2 ^ 53) * d \<le> D"
    using d(2,3) D(3) by simp_all
  have Qhi: "Q \<le> (1 + 1 / 2 ^ 52) * X"
  proof -
    have "C * D \<le> C * ((1 + 1 / 2 ^ 52) * d)"
      using DQ(1) C(1) by (rule mult_left_mono)
    then have "C / d \<le> (1 + 1 / 2 ^ 52) * (C / D)"
      using d0(1) D(3) by (simp add: field_simps)
    then show ?thesis by (simp only: Q_def X_def)
  qed
  have Qlo: "(1 - 1 / 2 ^ 53) * X \<le> Q"
  proof -
    have "C * ((1 - 1 / 2 ^ 53) * d) \<le> C * D"
      using DQ(2) C(1) by (rule mult_left_mono)
    then have "(1 - 1 / 2 ^ 53) * (C / D) \<le> C / d"
      using d0(1) D(3) by (simp add: field_simps)
    then show ?thesis by (simp only: Q_def X_def)
  qed
  have Qr: "Q = 0 \<or> (1 / 2 ^ 70 \<le> Q \<and> Q \<le> 2 ^ 200)"
    and Qr': "Q = 0 \<or> (1 / 2 ^ 54 \<le> Q \<and> Q \<le> 2 ^ 60)"
  proof -
    show "Q = 0 \<or> (1 / 2 ^ 54 \<le> Q \<and> Q \<le> 2 ^ 60)"
    proof (cases "C = 0")
      case True
      then show ?thesis by (simp add: Q_def)
    next
      case False
      with C(3) have C1: "1 \<le> C" by simp
      have "1 / 2 ^ 54 \<le> 1 / d"
        using d0 by (simp add: field_simps)
      also have "1 / d \<le> C / d"
        using C1 d0(1) by (simp add: divide_right_mono)
      finally have lo: "1 / 2 ^ 54 \<le> Q" by (simp add: Q_def)
      have "C / d \<le> 2 ^ 53 / d"
        using C(2) d0(1) by (simp add: divide_right_mono)
      also have "2 ^ 53 / d \<le> 2 ^ 53 / (1 / 2 ^ 7)"
        using d0 by (intro divide_left_mono) simp_all
      finally have "Q \<le> 2 ^ 60" by (simp add: Q_def)
      with lo show ?thesis by simp
    qed
    then show "Q = 0 \<or> (1 / 2 ^ 70 \<le> Q \<and> Q \<le> 2 ^ 200)"
      by auto
  qed
  from to_nearest_range[OF Qr, of "c < 0"] obtain t where
    t: "to_nearest (c < 0) Q = Finite (c < 0) t" "Q - Q / 2 ^ 53 \<le> t" "t \<le> Q + Q / 2 ^ 53"
    by blast
  have tc: "py_truediv (PyFloat (Finite (c < 0) \<bar>of_int c\<bar>)) (PyFloat (Finite False d)) =
       Inr (PyFloat (Finite (c < 0) t))"
    using t(1) d0(1) by (simp add: py_truediv_def py_float_def is_zero_def Q_def C_def)
  have tr: "t = 0 \<or> (1 / 2 ^ 62 \<le> t \<and> t \<le> 2 ^ 62)"
    using Qr' t(2,3) by auto
  have X0: "0 \<le> X"
    using C(1) D(3) by (simp add: X_def)
  have "(1 - 1 / 2 ^ 52) * X \<le> t" "t \<le> (1 + 1 / 2 ^ 51) * X"
    using t(2,3) Qlo Qhi X0 by simp_all
  then have "(1 - 1 / 2 ^ 52) * (\<bar>of_int c\<bar> / (of_int n / 52)) \<le> t"
    "t \<le> (1 + 1 / 2 ^ 51) * (\<bar>of_int c\<bar> / (of_int n / 52))"
    by (simp_all only: X_def C_def D_def N_def)
  with decks d0(1) tc tr show ?thesis by (rule that)
qed

section \<open>The hand total and a draw\<close>

lemma reduce_aces_step: "a > 0 \<Longrightarrow> v > 21 \<Longrightarrow> reduce_aces v a = reduce_aces (v - 10) (a - 1)"
  by (subst reduce_aces.simps) simp

lemma reduce_aces_stop: "\<not> (a > 0 \<and> v > 21) \<Longrightarrow> reduce_aces v a = (v, a)"
  by (subst reduce_aces.simps) auto

lemma ace_adjust_step:
  "aces h > 0 \<Longrightarrow> hand_value h > 21 \<Longrightarrow>
   ace_adjust h = ace_adjust (h\<lparr>hand_value := hand_value h - 10, aces := aces h - 1\<rparr>)"
  by (subst ace_adjust.simps) simp

lemma ace_adjust_stop: "\<not> (aces h > 0 \<and> hand_value h > 21) \<Longrightarrow> ace_adjust h = h"
  by (subst ace_adjust.simps) auto

lemma ace_adjust_reduce:
  "ace_adjust h =
     h\<lparr>hand_value := fst (reduce_aces (hand_value h) (aces h)),
       aces := snd (reduce_aces (hand_value h) (aces h))\<rparr>"
proof (induction h rule: ace_adjust.induct)
  case (1 h)
  show ?case
  proof (cases "aces h > 0 \<and> hand_value h > 21")
    case True
    then show ?thesis
      using "1.IH" by (simp add: ace_adjust_step reduce_aces_step)
  next
    case False
    then show ?thesis
      by (simp add: ace_adjust_stop reduce_aces_stop)
  qed
qed

lemma ace_adjust_cards: "cards (ace_adjust h) = cards h"
  by (subst ace_adjust_reduce) simp

lemma reduce_aces_add:
  "0 \<le> x \<Longrightarrow> 0 \<le> k \<Longrightarrow>
   reduce_aces (fst (reduce_aces v a) + x) (snd (reduce_aces v a) + k) = reduce_aces (v + x) (a + k)"
proof (induction v a rule: reduce_aces.induct)
  case (1 v a)
  show ?case
  proof (cases "a > 0 \<and> v > 21")
    case True
    have "reduce_aces (v + x) (a + k) = reduce_aces (v + x - 10) (a + k - 1)"
      using True 1(2,3) by (intro reduce_aces_step) auto
    moreover have "reduce_aces v a = reduce_aces (v - 10) (a - 1)"
      using True by (simp add: reduce_aces_step)
    ultimately show ?thesis
      using "1.IH"[OF True 1(2,3)] by (simp add: algebra_simps)
  next
    case False
    then show ?thesis by (simp add: reduce_aces_stop)
  qed
qed

lemma cards_add_card: "cards (add_card c h) = cards h @ [c]"
  by (simp add: add_card_def ace_adjust_cards)

lemma add_card_recompute:
  assumes "(hand_value h, aces h) = recompute (cards h)" and "0 \<le> card_value c"
  shows "(hand_value (add_card c h), aces (add_card c h)) = recompute (cards (add_card c h))"
proof -
  let ?k = "if rank c = ''ace'' then 1 else (0::int)"
  let ?s = "sum_list (map card_value (cards h))"
  let ?n = "int (length (filter (\<lambda>c. rank c = ''ace'') (cards h)))"
  have h: "hand_value h = fst (reduce_aces ?s ?n)" "aces h = snd (reduce_aces ?s ?n)"
    using assms(1)[unfolded recompute_def] by (metis fst_conv, metis snd_conv)
  have "(hand_value (add_card c h), aces (add_card c h))
          = reduce_aces (hand_value h + card_value c) (aces h + ?k)"
    by (simp add: add_card_def ace_adjust_reduce)
  also have "\<dots> = reduce_aces (?s + card_value c) (?n + ?k)"
    unfolding h using assms(2) by (intro reduce_aces_add) auto
  also have "\<dots> = recompute (cards h @ [c])"
    by (simp add: recompute_def)
  finally show ?thesis by (simp add: cards_add_card)
qed

lemma hit_me_unfold:
  "hit_me e p dk =
     (if deck_cards (refill e dk) = [] then Inl IndexError
      else Inr (p\<lparr>hand := add_card (last (deck_cards (refill e dk))) (hand p),
                  count := (if card_counting p
                            then (if is_empty dk then 0 else count p) +
                                 count_value (last (deck_cards (refill e dk)))
                            else count p),
                  is_done := (is_done p \<or>
                     finished (add_card (last (deck_cards (refill e dk))) (hand p)))\<rparr>,
                (refill e dk)\<lparr>deck_cards := butlast (deck_cards (refill e dk)),
                   cards_left := cards_left (refill e dk) - 1\<rparr>))"
proof (cases "deck_cards (refill e dk)")
  case Nil
  then show ?thesis
    unfolding hit_me_def refill_def by (cases "is_empty dk") simp_all
next
  case (Cons x xs)
  then have ne: "deck_cards (refill e dk) \<noteq> []"
    by simp
  show ?thesis
    unfolding hit_me_def
    apply (cases "is_empty dk"; cases "card_counting p";
           cases "rank (last (deck_cards (refill e dk))) = ''ace''")
    using ne
           apply (simp_all add: Let_def list.case_eq_if card_eq_def ace_instance_def refill_def
                    add_card_def finished_def cong: let_weak_cong)
           apply (auto intro: player.equality)
    done
qed

lemma hit_me_frame:
  assumes "hit_me e p dk = Inr (p', dk')"
  shows "rounds p' = rounds p" "wins p' = wins p" "draws p' = draws p" "losses p' = losses p"
    "busts p' = busts p" "stands p' = stands p" "current_bet p' = current_bet p"
    "total_bets p' = total_bets p" "total_earnings p' = total_earnings p"
    "card_counting p' = card_counting p" "name p' = name p"
    "cards (hand p') = cards (hand p) @ [last (deck_cards (refill e dk))]"
  using assms by (auto simp: hit_me_unfold cards_add_card split: if_splits)

lemma hit_me_keeps_hand_total:
  assumes "hit_me e p dk = Inr (p', dk')"
    and "(hand_value (hand p), aces (hand p)) = recompute (cards (hand p))"
    and "0 \<le> card_value (last (deck_cards (refill e dk)))"
  shows "(hand_value (hand p'), aces (hand p')) = recompute (cards (hand p'))"
proof -
  have "hand p' = add_card (last (deck_cards (refill e dk))) (hand p)"
    using assms(1) by (auto simp: hit_me_unfold split: if_splits)
  then show ?thesis
    using add_card_recompute[OF assms(2,3)] by simp
qed

lemma dealer_hit_me_player:
  assumes "dealer_hit_me e d dk p = Inr (d', p', dk')"
  shows "\<exists>c. p' = p\<lparr>count := c\<rparr>"
proof -
  have "p' = p\<lparr>count := count p'\<rparr>"
    using assms by (auto simp: dealer_hit_me_def Let_def split: if_splits)
  then show ?thesis ..
qed

lemma dealer_hit_me_up_card:
  assumes "dealer_hit_me e d dk p = Inr (d', p', dk')"
  shows "up_card d' = up_card d"
  using assms by (auto simp: dealer_hit_me_def Let_def split: if_splits)

lemma stand_frame:
  "rounds (stand p) = rounds p" "wins (stand p) = wins p" "draws (stand p) = draws p"
  "losses (stand p) = losses p" "busts (stand p) = busts p" "hand (stand p) = hand p"
  by (simp_all add: stand_def Let_def)

lemma doubles_unfold:
  "doubles p =
     (case py_add (total_bets p) (current_bet p) of
        Inl x \<Rightarrow> Inl x
      | Inr t \<Rightarrow>
         (case py_mul (current_bet p) (PyInt 2) of
            Inl x \<Rightarrow> Inl x
          | Inr c \<Rightarrow> Inr (p\<lparr>total_bets := t, current_bet := c, is_done := True\<rparr>)))"
  by (simp add: doubles_def Let_def split: sum.splits)

lemma doubles_frame:
  assumes "doubles p = Inr q"
  shows "rounds q = rounds p" "wins q = wins p" "draws q = draws p"
    "losses q = losses p" "busts q = busts p" "stands q = stands p"
    "hand q = hand p" "is_done q"
  using assms by (auto simp: doubles_unfold split: sum.splits)

lemma round_outcome_unfold:
  "round_outcome p w dr l =
     (if w
      then (case py_add (total_earnings p) (current_bet p) of
              Inl x \<Rightarrow> Inl x
            | Inr s \<Rightarrow>
                Inr (p\<lparr>rounds := rounds p + 1, wins := wins p + 1, total_earnings := s,
                       current_bet := PyInt 0, is_done := False\<rparr>))
      else if l
      then (case py_sub (total_earnings p) (current_bet p) of
              Inl x \<Rightarrow> Inl x
            | Inr s \<Rightarrow>
                Inr (p\<lparr>rounds := rounds p + 1, losses := losses p + 1, total_earnings := s,
                       current_bet := PyInt 0, is_done := False\<rparr>))
      else if dr
      then Inr (p\<lparr>rounds := rounds p + 1, draws := draws p + 1,
                  current_bet := PyInt 0, is_done := False\<rparr>)
      else Inr (p\<lparr>rounds := rounds p + 1, current_bet := PyInt 0, is_done := False\<rparr>))"
  by (simp add: round_outcome_def Let_def split: sum.splits)

lemma round_outcome_counters:
  assumes "round_outcome p w dr l = Inr q" and "w \<or> dr \<or> l"
  shows "rounds q = rounds p + 1"
    "wins q + draws q + losses q = wins p + draws p + losses p + 1"
    "stands q = stands p" "busts q = busts p"
  using assms by (auto simp: round_outcome_unfold split: if_splits sum.splits)


lemma player_loop_counters:
  "player_loop n e p d dk = Some (Inr (p', dk')) \<Longrightarrow>
   rounds p' = rounds p \<and> wins p' = wins p \<and> draws p' = draws p \<and> losses p' = losses p"
proof (induction n arbitrary: p dk)
  case 0
  then show ?case by (simp split: if_splits)
next
  case (Suc n)
  show ?case
  proof (cases "is_done p")
    case True
    with Suc.prems show ?thesis by simp
  next
    case False
    from Suc.prems False obtain decision where dec: "get_other_decision e p d = Inr decision"
      by (cases "get_other_decision e p d") auto
    consider (h) "decision = ''h''" | (s) "decision = ''s''" | (d) "decision = ''d''"
      | (other) "decision \<noteq> ''h''" "decision \<noteq> ''s''" "decision \<noteq> ''d''"
      by blast
    then show ?thesis
    proof cases
      case h
      with Suc.prems False dec obtain p1 dk1 where
        hit: "hit_me e p dk = Inr (p1, dk1)" and rest: "player_loop n e p1 d dk1 = Some (Inr (p', dk'))"
        by (cases "hit_me e p dk") auto
      from Suc.IH[OF rest] hit_me_frame[OF hit] show ?thesis by simp
    next
      case s
      with Suc.prems False dec have "player_loop n e (stand p) d dk = Some (Inr (p', dk'))"
        by simp
      from Suc.IH[OF this] show ?thesis by (simp add: stand_frame)
    next
      case d
      with Suc.prems False dec obtain p1 dk1 where
        hit: "hit_me e p dk = Inr (p1, dk1)"
        and rest1: "(case doubles p1 of Inl x \<Rightarrow> Some (Inl x)
                     | Inr p2 \<Rightarrow> player_loop n e p2 d dk1) = Some (Inr (p', dk'))"
        by (cases "hit_me e p dk") auto
      then obtain p2 where
        dbl: "doubles p1 = Inr p2" and rest: "player_loop n e p2 d dk1 = Some (Inr (p', dk'))"
        by (cases "doubles p1") auto
      from Suc.IH[OF rest] hit_me_frame[OF hit] doubles_frame[OF dbl] show ?thesis by simp
    next
      case other
      with Suc.prems False dec have "player_loop n e p d dk = Some (Inr (p', dk'))"
        by simp
      from Suc.IH[OF this] show ?thesis .
    qed
  qed
qed

lemma dealer_loop_player:
  "dealer_loop n e p d dk = Some (Inr (d', p', dk')) \<Longrightarrow> \<exists>c. p' = p\<lparr>count := c\<rparr>"
proof (induction n arbitrary: p d dk)
  case 0
  then have "p' = p\<lparr>count := count p\<rparr>" by (simp split: if_splits)
  then show ?case ..
next
  case (Suc n)
  show ?case
  proof (cases "dealer_is_done d")
    case True
    with Suc.prems have "p' = p\<lparr>count := count p\<rparr>" by simp
    then show ?thesis ..
  next
    case False
    show ?thesis
    proof (cases "get_decision d = ''h''")
      case True
      with Suc.prems False obtain d1 p1 dk1 where
        hit: "dealer_hit_me e d dk p = Inr (d1, p1, dk1)"
        and rest: "dealer_loop n e p1 d1 dk1 = Some (Inr (d', p', dk'))"
        by (cases "dealer_hit_me e d dk p") auto
      from Suc.IH[OF rest] dealer_hit_me_player[OF hit]
      obtain c c1 where "p' = p1\<lparr>count := c\<rparr>" "p1 = p\<lparr>count := c1\<rparr>" by blast
      then have "p' = p\<lparr>count := c\<rparr>" by simp
      then show ?thesis ..
    next
      case False
      with Suc.prems \<open>\<not> dealer_is_done d\<close>
      have "dealer_loop n e p (dealer_stand d) dk = Some (Inr (d', p', dk'))"
        by (simp add: get_decision_def split: if_splits)
      from Suc.IH[OF this] show ?thesis .
    qed
  qed
qed

section \<open>Counters and the dealer across a round\<close>

lemma dealer_loop_up_card:
  "dealer_loop n e p d dk = Some (Inr (d', p', dk')) \<Longrightarrow> up_card d' = up_card d"
proof (induction n arbitrary: p d dk)
  case 0
  then show ?case by (simp split: if_splits)
next
  case (Suc n)
  show ?case
  proof (cases "dealer_is_done d")
    case True
    with Suc.prems show ?thesis by simp
  next
    case False
    show ?thesis
    proof (cases "get_decision d = ''h''")
      case True
      with Suc.prems False obtain d1 p1 dk1 where
        hit: "dealer_hit_me e d dk p = Inr (d1, p1, dk1)"
        and rest: "dealer_loop n e p1 d1 dk1 = Some (Inr (d', p', dk'))"
        by (cases "dealer_hit_me e d dk p") auto
      from Suc.IH[OF rest] dealer_hit_me_up_card[OF hit] show ?thesis by simp
    next
      case False
      with Suc.prems \<open>\<not> dealer_is_done d\<close>
      have "dealer_loop n e p (dealer_stand d) dk = Some (Inr (d', p', dk'))"
        by (simp add: get_decision_def split: if_splits)
      from Suc.IH[OF this] show ?thesis by (simp add: dealer_stand_def)
    qed
  qed
qed

lemma dealer_turn_player:
  assumes "dealer_turn n e p d dk = Some (Inr (d', p', dk'))"
  shows "\<exists>c. p' = p\<lparr>count := c\<rparr>"
proof (cases "hand_value (hand p) < 21")
  case True
  with assms show ?thesis by (simp add: dealer_turn_def dealer_loop_player)
next
  case False
  with assms have "p' = p\<lparr>count := count p\<rparr>" by (simp add: dealer_turn_def)
  then show ?thesis ..
qed

lemma dealer_turn_up_card:
  assumes "dealer_turn n e p d dk = Some (Inr (d', p', dk'))"
  shows "up_card d' = up_card d"
  using assms by (auto simp: dealer_turn_def dealer_loop_up_card split: if_splits)

lemma goes_bust_counters:
  assumes "goes_bust p = Inr q"
  shows "rounds q = rounds p + 1"
    "wins q + draws q + losses q = wins p + draws p + losses p + 1"
    "stands q = stands p" "busts q = busts p + 1"
proof -
  from assms have r: "round_outcome (p\<lparr>busts := busts p + 1\<rparr>) False False True = Inr q"
    by (simp add: goes_bust_def Let_def)
  from round_outcome_counters[OF r] show "rounds q = rounds p + 1"
    "wins q + draws q + losses q = wins p + draws p + losses p + 1"
    "stands q = stands p" "busts q = busts p + 1"
    by simp_all
qed

lemma gets_blackjack_counters:
  assumes "gets_blackjack p = Inr q"
  shows "rounds q = rounds p + 1"
    "wins q + draws q + losses q = wins p + draws p + losses p + 1"
    "stands q = stands p" "busts q = busts p"
proof -
  from assms obtain b where
    r: "round_outcome (p\<lparr>current_bet := b, is_done := True\<rparr>) True False False = Inr q"
    by (auto simp: gets_blackjack_def Let_def split: sum.splits)
  from round_outcome_counters[OF r] show "rounds q = rounds p + 1"
    "wins q + draws q + losses q = wins p + draws p + losses p + 1"
    "stands q = stands p" "busts q = busts p"
    by simp_all
qed

lemma settle_cases:
  assumes "settle p d = Inr (p', d')"
  obtains (bust) "hand_value (hand p) > 21" "goes_bust p = Inr p'" "d' = d"
  | (dealer_bust) "\<not> hand_value (hand p) > 21"
      "round_outcome p True False False = Inr p'" "d' = dealer_goes_bust d"
  | (blackjack) "\<not> hand_value (hand p) > 21" "gets_blackjack p = Inr p'" "d' = d"
  | (win) "\<not> hand_value (hand p) > 21" "round_outcome p True False False = Inr p'" "d' = d"
  | (loss) "\<not> hand_value (hand p) > 21" "round_outcome p False False True = Inr p'" "d' = d"
  | (draw) "\<not> hand_value (hand p) > 21" "round_outcome p False True False = Inr p'" "d' = d"
  using assms by (auto simp: settle_def Let_def split: if_splits sum.splits)

lemma settle_counters:
  assumes "settle p d = Inr (p', d')"
  shows "rounds p' = rounds p + 1"
    "wins p' + draws p' + losses p' = wins p + draws p + losses p + 1"
    "stands p' = stands p"
    "busts p' = (if hand_value (hand p) > 21 then busts p + 1 else busts p)"
    "up_card d' = up_card d"
proof -
  have "rounds p' = rounds p + 1
      \<and> wins p' + draws p' + losses p' = wins p + draws p + losses p + 1
      \<and> stands p' = stands p
      \<and> busts p' = (if hand_value (hand p) > 21 then busts p + 1 else busts p)
      \<and> up_card d' = up_card d"
    using assms
  proof (cases rule: settle_cases)
    case bust
    then show ?thesis using goes_bust_counters[of p p'] by simp
  next
    case dealer_bust
    then show ?thesis
      using round_outcome_counters[of p True False False p'] by (simp add: dealer_goes_bust_def)
  next
    case blackjack
    then show ?thesis using gets_blackjack_counters[of p p'] by simp
  next
    case win
    then show ?thesis using round_outcome_counters[of p True False False p'] by simp
  next
    case loss
    then show ?thesis using round_outcome_counters[of p False False True p'] by simp
  next
    case draw
    then show ?thesis using round_outcome_counters[of p False True False p'] by simp
  qed
  then show "rounds p' = rounds p + 1"
    "wins p' + draws p' + losses p' = wins p + draws p + losses p + 1"
    "stands p' = stands p"
    "busts p' = (if hand_value (hand p) > 21 then busts p + 1 else busts p)"
    "up_card d' = up_card d"
    by simp_all
qed

lemma round_fn_stages:
  assumes "round_fn n e p d dk dm = Some (Inr (p', d', dk'))"
  obtains p0 dk0 p1 dk1 d2 p2 p3 d3 where
    "ace_split_hit e p dk dm = Inr (p0, dk0)"
    "player_loop n e p0 d dk0 = Some (Inr (p1, dk1))"
    "dealer_turn n e p1 d dk1 = Some (Inr (d2, p2, dk'))"
    "settle p2 d2 = Inr (p3, d3)"
    "p' = p3\<lparr>hand := Hand\<rparr>"
    "d' = d3\<lparr>dealer_hand := Hand, dealer_is_done := False\<rparr>"
  using assms
  by (auto simp: round_fn_def clear_hands_def Let_def
           split: sum.splits option.splits prod.splits)

lemma ace_split_hit_counters:
  assumes "ace_split_hit e p dk dm = Inr (p0, dk0)"
  shows "rounds p0 = rounds p" "wins p0 = wins p" "draws p0 = draws p" "losses p0 = losses p"
  using assms
  by (auto simp: ace_split_hit_def split: if_splits list.splits dest: hit_me_frame)

lemma round_fn_counters:
  assumes "round_fn n e p d dk dm = Some (Inr (p', d', dk'))"
  shows "rounds p' = rounds p + 1"
    and "wins p' + draws p' + losses p' = wins p + draws p + losses p + 1"
proof -
  from assms obtain p0 dk0 p1 dk1 d2 p2 p3 d3 where
    a: "ace_split_hit e p dk dm = Inr (p0, dk0)"
    and b: "player_loop n e p0 d dk0 = Some (Inr (p1, dk1))"
    and c: "dealer_turn n e p1 d dk1 = Some (Inr (d2, p2, dk'))"
    and s: "settle p2 d2 = Inr (p3, d3)"
    and p': "p' = p3\<lparr>hand := Hand\<rparr>"
    by (rule round_fn_stages)
  from dealer_turn_player[OF c] obtain k where p2: "p2 = p1\<lparr>count := k\<rparr>" ..
  have "rounds p2 = rounds p" "wins p2 = wins p" "draws p2 = draws p" "losses p2 = losses p"
    using ace_split_hit_counters[OF a] player_loop_counters[OF b] p2 by simp_all
  then show "rounds p' = rounds p + 1"
    and "wins p' + draws p' + losses p' = wins p + draws p + losses p + 1"
    using settle_counters(1,2)[OF s] p' by simp_all
qed

lemma round_fn_dealer_cleared:
  assumes "round_fn n e p d dk dm = Some (Inr (p', d', dk'))"
  shows "dealer_hand d' = Hand" "\<not> dealer_is_done d'" "up_card d' = up_card d" "hand p' = Hand"
proof -
  from assms obtain p0 dk0 p1 dk1 d2 p2 p3 d3 where
    c: "dealer_turn n e p1 d dk1 = Some (Inr (d2, p2, dk'))"
    and s: "settle p2 d2 = Inr (p3, d3)"
    and p': "p' = p3\<lparr>hand := Hand\<rparr>"
    and d': "d' = d3\<lparr>dealer_hand := Hand, dealer_is_done := False\<rparr>"
    by (rule round_fn_stages)
  show "dealer_hand d' = Hand" "\<not> dealer_is_done d'" "hand p' = Hand"
    using p' d' by simp_all
  show "up_card d' = up_card d"
    using d' dealer_turn_up_card[OF c] settle_counters(5)[OF s] by simp
qed

lemma start_round_counters:
  assumes "start_round e p dk bet = Inr (p', dk')"
  shows "rounds p' = rounds p" "wins p' = wins p" "draws p' = draws p" "losses p' = losses p"
    "length (cards (hand p')) = length (cards (hand p)) + 2"
proof -
  from assms obtain t p0 dk0 where
    a: "hit_me e (p\<lparr>current_bet := bet, total_bets := t\<rparr>) dk = Inr (p0, dk0)"
    and b: "hit_me e p0 dk0 = Inr (p', dk')"
    by (auto simp: start_round_def Let_def split: sum.splits if_splits)
  show "rounds p' = rounds p" "wins p' = wins p" "draws p' = draws p" "losses p' = losses p"
    "length (cards (hand p')) = length (cards (hand p)) + 2"
    using hit_me_frame[OF a] hit_me_frame[OF b] by simp_all
qed

lemma dealer_start_round_player:
  assumes "dealer_start_round e d dk p = Inr (d', p', dk')"
  shows "\<exists>c. p' = p\<lparr>count := c\<rparr>"
proof -
  from assms obtain d1 p1 dk1 where
    a: "dealer_hit_me e d dk p = Inr (d1, p1, dk1)"
    and b: "dealer_hit_me e (d1\<lparr>up_card := last (cards (dealer_hand d1))\<rparr>) dk1 p1 = Inr (d', p', dk')"
    by (auto simp: dealer_start_round_def split: sum.splits)
  from dealer_hit_me_player[OF a] dealer_hit_me_player[OF b]
  obtain c c1 where "p' = p1\<lparr>count := c\<rparr>" "p1 = p\<lparr>count := c1\<rparr>" by blast
  then have "p' = p\<lparr>count := c\<rparr>" by simp
  then show ?thesis ..
qed

lemma deal_counters:
  assumes "deal e p d dk = Inr (p1, d1, dk1)"
  shows "rounds p1 = rounds p" "wins p1 = wins p" "draws p1 = draws p" "losses p1 = losses p"
    "length (cards (hand p1)) = length (cards (hand p)) + 2"
proof -
  from assms obtain bet p0 dk0 where
    a: "start_round e p dk bet = Inr (p0, dk0)"
    and b: "dealer_start_round e d dk0 p0 = Inr (d1, p1, dk1)"
    by (auto simp: deal_def Let_def split: sum.splits if_splits)
  from dealer_start_round_player[OF b] obtain c where "p1 = p0\<lparr>count := c\<rparr>" ..
  then show "rounds p1 = rounds p" "wins p1 = wins p" "draws p1 = draws p" "losses p1 = losses p"
    "length (cards (hand p1)) = length (cards (hand p)) + 2"
    using start_round_counters[OF a] by simp_all
qed

lemma split_hands_lengths:
  assumes "split_hands e p dk = Inr (p', dm, dk')"
  shows "length (cards (hand p')) = length (cards (hand p))" "length (cards (hand dm)) = 2"
proof -
  let ?c = "last (cards (hand p))"
  let ?q = "p\<lparr>hand := (hand p)\<lparr>cards := butlast (cards (hand p))\<rparr>\<rparr>"
  let ?m = "(split p)\<lparr>hand := (hand (split p))\<lparr>cards := cards (hand (split p)) @ [?c]\<rparr>\<rparr>"
  from assms have ne: "cards (hand p) \<noteq> []"
    by (auto simp: split_hands_def Let_def split: list.splits)
  with assms obtain p1 dk1 m1 where
    a: "hit_me e ?q dk = Inr (p1, dk1)" and b: "hit_me e ?m dk1 = Inr (m1, dk')"
    and c: "cards (hand p') = cards (hand p1)" "cards (hand dm) = cards (hand m1)"
    by (auto simp: split_hands_def Let_def list.case_eq_if split: sum.splits if_splits)
  from hit_me_frame(12)[OF a] ne c show "length (cards (hand p')) = length (cards (hand p))"
    by simp
  from hit_me_frame(12)[OF b] c show "length (cards (hand dm)) = 2"
    by (simp add: split_def BasicPlayer_def Hand_def Let_def)
qed


section \<open>When the arithmetic returns\<close>

lemma py_float_overflow:
  assumes "2 ^ 1024 \<le> \<bar>i\<bar>"
  shows "py_float (PyInt i) = Inl OverflowError"
proof -
  define q :: rat where "q = \<bar>of_int i\<bar>"
  have "(of_int (2 ^ 1024) :: rat) \<le> of_int \<bar>i\<bar>"
    using assms by (simp only: of_int_le_iff)
  then have big: "2 ^ 1024 \<le> q"
    by (simp add: q_def)
  then have q0: "0 < q"
    by (simp add: less_le_trans[of 0 "2 ^ 1024" q])
  have "1023 < ilog2 q"
  proof (rule ccontr)
    assume "\<not> 1023 < ilog2 q"
    then have "ilog2 q + 1 \<le> 1024" by simp
    then have "pow2 (ilog2 q + 1) \<le> pow2 1024" by (rule pow2_mono)
    moreover have "pow2 1024 = 2 ^ 1024" by (simp add: pow2_def)
    ultimately show False
      using ilog2_bounds(2)[OF q0] big by simp
  qed
  then have "round_mag q = None"
    using q0 by (simp add: round_mag_def Let_def)
  then show ?thesis
    by (simp add: py_float_def q_def)
qed

lemma py_add_returns:
  assumes "py_float x = Inr a" "py_float y = Inr b"
  shows "\<exists>r. py_add x y = Inr r"
  using assms by (cases x; cases y) (simp_all add: float_op_def)

lemma py_sub_returns:
  assumes "py_float x = Inr a" "py_float y = Inr b"
  shows "\<exists>r. py_sub x y = Inr r"
  using assms by (cases x; cases y) (simp_all add: float_op_def)

lemma py_mul_float_returns:
  assumes "py_float x = Inr a"
  shows "py_mul x (PyFloat f) = Inr (PyFloat (fmul a f))"
  using assms by (cases x) (simp_all add: float_op_def py_float_def)

lemma round_outcome_returns:
  assumes "py_float (total_earnings p) = Inr a" "py_float (current_bet p) = Inr b"
  shows "\<exists>q. round_outcome p w dr l = Inr q"
proof -
  from py_add_returns[OF assms] obtain r where r: "py_add (total_earnings p) (current_bet p) = Inr r" ..
  from py_sub_returns[OF assms] obtain s where s: "py_sub (total_earnings p) (current_bet p) = Inr s" ..
  show ?thesis
    by (simp add: round_outcome_unfold r s)
qed

lemma settle_returns:
  assumes "py_float (total_earnings p) = Inr a" "py_float (current_bet p) = Inr b"
  shows "\<exists>r. settle p d = Inr r"
proof -
  have ro: "\<exists>q. round_outcome p w dr l = Inr q" for w dr l
    using assms by (rule round_outcome_returns)
  have gb: "\<exists>q. goes_bust p = Inr q"
    using round_outcome_returns[of "p\<lparr>busts := busts p + 1\<rparr>" a b False False True] assms
    by (simp add: goes_bust_def Let_def)
  have bj: "\<exists>q. gets_blackjack p = Inr q"
    using round_outcome_returns[of "p\<lparr>current_bet := PyFloat (fmul b (Finite False (3 / 2))),
                                     is_done := True\<rparr>" a "fmul b (Finite False (3 / 2))"
                                   True False False]
      assms(1) py_mul_float_returns[OF assms(2), of "Finite False (3 / 2)"]
    by (simp add: gets_blackjack_def Let_def py_float_def)
  from gb obtain q1 where q1: "goes_bust p = Inr q1" ..
  from bj obtain q2 where q2: "gets_blackjack p = Inr q2" ..
  from ro[of True False False] obtain q3 where q3: "round_outcome p True False False = Inr q3" ..
  from ro[of False False True] obtain q4 where q4: "round_outcome p False False True = Inr q4" ..
  from ro[of False True False] obtain q5 where q5: "round_outcome p False True False = Inr q5" ..
  show ?thesis
    by (simp add: settle_def Let_def q1 q2 q3 q4 q5)
qed


section \<open>The bet of a counting player\<close>

lemma calculate_bet_bound:
  assumes c: "\<bar>c\<bar> < 2 ^ 53" and b: "0 \<le> b" "b < 2 ^ 53" and n: "0 \<le> n" "n < 2 ^ 53"
  shows "\<exists>r. calculate_bet c b n = Inr r \<and> isfinite r \<and>
           \<bar>py_val r - max 0 (of_int b * (if n > 0 then of_int c / (of_int n / 52) else of_int c))\<bar>
             \<le> max 0 (of_int b * (if n > 0 then of_int c / (of_int n / 52) else of_int c)) / 2 ^ 50"
proof -
  define B :: rat where "B = of_int b"
  define C :: rat where "C = \<bar>of_int c\<bar>"
  define X :: rat where "X = (if n > 0 then C / (of_int n / 52) else C)"
  define E :: rat where "E = max 0 (of_int b * (if n > 0 then of_int c / (of_int n / 52) else of_int c))"
  have B0: "0 \<le> B" using b(1) by (simp add: B_def)
  have C0: "0 \<le> C" by (simp add: C_def)
  have X0: "0 \<le> X" using C0 n(1) by (simp add: X_def)
  have pfc: "py_float (PyInt c) = Inr (Finite (c < 0) C)"
    using py_float_small[OF c] by (simp add: C_def)
  text \<open>The true count, before it is multiplied.\<close>
  obtain t where
    t: "t = 0 \<or> (1 / 2 ^ 62 \<le> t \<and> t \<le> 2 ^ 62)"
       "(1 - 1 / 2 ^ 52) * X \<le> t" "t \<le> (1 + 1 / 2 ^ 51) * X"
    and run: "\<And>m. py_mul (PyInt b) (PyFloat (Finite (c < 0) t)) = Inr (PyFloat (Finite (c < 0) m))
               \<Longrightarrow> calculate_bet c b n = Inr (py_max (PyFloat (Finite (c < 0) m)) (PyInt 0))"
  proof (cases "0 < n")
    case True
    from true_count_bounds[OF c True n(2)] obtain d t where
      dt: "py_truediv (PyInt n) (PyFloat (Finite False 52)) = Inr (PyFloat (Finite False d))"
        "0 < d"
        "py_truediv (PyFloat (Finite (c < 0) \<bar>of_int c\<bar>)) (PyFloat (Finite False d)) =
           Inr (PyFloat (Finite (c < 0) t))"
        "t = 0 \<or> (1 / 2 ^ 62 \<le> t \<and> t \<le> 2 ^ 62)"
        "(1 - 1 / 2 ^ 52) * (\<bar>of_int c\<bar> / (of_int n / 52)) \<le> t"
        "t \<le> (1 + 1 / 2 ^ 51) * (\<bar>of_int c\<bar> / (of_int n / 52))"
      by blast
    have gt: "py_gt (PyFloat (Finite False d)) (PyInt 0)"
      using dt(2) by (simp add: py_gt_def position_def)
    show ?thesis
    proof (rule that[of t])
      show "t = 0 \<or> (1 / 2 ^ 62 \<le> t \<and> t \<le> 2 ^ 62)" by (rule dt(4))
      show "(1 - 1 / 2 ^ 52) * X \<le> t" "t \<le> (1 + 1 / 2 ^ 51) * X"
        using dt(5,6) True by (simp_all only: X_def C_def if_True)
      fix m
      assume "py_mul (PyInt b) (PyFloat (Finite (c < 0) t)) = Inr (PyFloat (Finite (c < 0) m))"
      then show "calculate_bet c b n = Inr (py_max (PyFloat (Finite (c < 0) m)) (PyInt 0))"
        using dt(1,3) gt pfc by (simp add: calculate_bet_def C_def)
    qed
  next
    case False
    with n(1) have n0: "n = 0" by simp
    have decks: "py_truediv (PyInt 0) (PyFloat (Finite False 52)) = Inr (PyFloat (Finite False 0))"
      by (simp add: py_truediv_def py_float_def is_zero_def round_mag_def to_nearest_def)
    have gt: "\<not> py_gt (PyFloat (Finite False 0)) (PyInt 0)"
      by (simp add: py_gt_def position_def)
    have Cr: "C = 0 \<or> (1 \<le> C \<and> C < 2 ^ 53)"
    proof -
      have "(of_int \<bar>c\<bar> :: rat) < of_int (2 ^ 53)" using c by (simp only: of_int_less_iff)
      moreover have "\<bar>c\<bar> = 0 \<or> 1 \<le> \<bar>c\<bar>" by auto
      then have "(of_int \<bar>c\<bar> :: rat) = 0 \<or> (1 :: rat) \<le> of_int \<bar>c\<bar>"
        by (metis of_int_0 of_int_1_le_iff)
      ultimately show ?thesis by (auto simp: C_def)
    qed
    show ?thesis
    proof (rule that[of C])
      show "C = 0 \<or> (1 / 2 ^ 62 \<le> C \<and> C \<le> 2 ^ 62)" using Cr by auto
      show "(1 - 1 / 2 ^ 52) * X \<le> C" "C \<le> (1 + 1 / 2 ^ 51) * X"
        using C0 n0 by (simp_all add: X_def)
      fix m
      assume "py_mul (PyInt b) (PyFloat (Finite (c < 0) C)) = Inr (PyFloat (Finite (c < 0) m))"
      then show "calculate_bet c b n = Inr (py_max (PyFloat (Finite (c < 0) m)) (PyInt 0))"
        using decks gt pfc n0 by (simp add: calculate_bet_def)
    qed
  qed
  from bet_product[OF b t(1), of "c < 0"] obtain m where
    m: "py_mul (PyInt b) (PyFloat (Finite (c < 0) t)) = Inr (PyFloat (Finite (c < 0) m))"
       "of_int b * t - of_int b * t / 2 ^ 53 \<le> m" "m \<le> of_int b * t + of_int b * t / 2 ^ 53"
    by blast
  have res: "calculate_bet c b n = Inr (py_max (PyFloat (Finite (c < 0) m)) (PyInt 0))"
    using run[OF m(1)] .
  have t0: "0 \<le> t"
    using t(2) X0 by (simp add: order_trans[OF _ t(2)])
  have Bt0: "0 \<le> B * t" using B0 t0 by simp
  have m0: "0 \<le> m"
  proof -
    have "B * t / 2 ^ 53 \<le> B * t" using Bt0 by (simp add: field_simps)
    moreover have "B * t - B * t / 2 ^ 53 \<le> m" using m(2) by (simp only: B_def)
    ultimately show ?thesis using Bt0 by linarith
  qed
  have val: "py_val (py_max (PyFloat (Finite (c < 0) m)) (PyInt 0)) = (if c < 0 then 0 else m)"
    using m0 by (rule py_max_zero_val)
  have "\<bar>(if c < 0 then 0 else m) - E\<bar> \<le> E / 2 ^ 50"
  proof (cases "c < 0")
    case True
    then have "(if n > 0 then of_int c / (of_int n / 52) else of_int c) \<le> (0 :: rat)"
      using n(1) by (auto simp: divide_le_0_iff)
    then have "B * (if n > 0 then of_int c / (of_int n / 52) else of_int c) \<le> 0"
      using B0 by (simp add: mult_le_0_iff)
    then have "E = 0" by (simp add: E_def B_def max_def)
    with True show ?thesis by simp
  next
    case False
    then have "C = of_int c" by (simp add: C_def)
    then have "E = max 0 (B * X)" by (simp add: E_def B_def X_def)
    moreover have "0 \<le> B * X" using B0 X0 by simp
    ultimately have E: "E = B * X" by simp
    have "B * t \<le> B * ((1 + 1 / 2 ^ 51) * X)"
      using t(3) B0 by (rule mult_left_mono)
    then have hi: "B * t \<le> (1 + 1 / 2 ^ 51) * E"
      by (simp add: E algebra_simps)
    have "B * ((1 - 1 / 2 ^ 52) * X) \<le> B * t"
      using t(2) B0 by (rule mult_left_mono)
    then have lo: "(1 - 1 / 2 ^ 52) * E \<le> B * t"
      by (simp add: E algebra_simps)
    have E0: "0 \<le> E" using E B0 X0 by simp
    have "m \<le> E + E / 2 ^ 50" "E - E / 2 ^ 50 \<le> m"
      using m(2,3) hi lo E0 by (simp_all add: B_def[symmetric])
    then have "\<bar>m - E\<bar> \<le> E / 2 ^ 50"
      unfolding abs_le_iff by linarith
    with False show ?thesis by (simp only: if_False)
  qed
  moreover have "isfinite (py_max (PyFloat (Finite (c < 0) m)) (PyInt 0))"
    by (simp add: py_max_def)
  ultimately show ?thesis
    using res val unfolding E_def by auto
qed

lemma bets_of_count_one:
  "calculate_bet 1 1000 3 = Inr bet_3_left" "calculate_bet 1 1000 7 = Inr bet_7_left"
  by code_simp+

lemma calculate_bet_overflow:
  assumes "2 ^ 1024 \<le> \<bar>c\<bar>"
  shows "calculate_bet c b n = Inl OverflowError"
proof -
  have f: "py_float (PyInt c) = Inl OverflowError"
    using assms by (rule py_float_overflow)
  have "py_truediv (PyInt n) (PyFloat (Finite False 52)) = Inl OverflowError
        \<or> (\<exists>d. py_truediv (PyInt n) (PyFloat (Finite False 52)) = Inr d)"
    by (auto simp: py_truediv_def py_float_def is_zero_def split: option.splits)
  then show ?thesis
    by (auto simp: calculate_bet_def f)
qed

section \<open>Properties of the specification\<close>

text \<open>
  C1. The specification asks that after every operation on a hand its \<open>value\<close> is the
  total derived from its cards by the ace rule, and \<open>aces\<close> the number of aces still
  worth 11. A draw keeps this (\<open>hit_me_keeps_hand_total\<close>), the split does not. With
  a pair of eights split and an ace drawn, \<open>hit_me\<close> reduces the ace on the stale total
  of 27 before the moved eight is subtracted: the hand 8, ace is left at 9 with no ace
  worth 11, where its cards give 19 and one. With a pair of aces nothing is patched: the
  hand ace, 5 is left at 17 where its cards give 16, and \<open>round\<close> restarts the total of
  the dummy at 11 while its second card stays in the hand, so ace, 7, 9 stands at 20
  with one ace worth 11 where the cards give 17 and none.
\<close>

theorem split_breaks_hand_total:
  "(case deal ex_env (BasicPlayer ''Player'' False) ex_dealer split_deck of
      Inr (p, d, dk) \<Rightarrow>
        (case split_hands ex_env p dk of
           Inr (p, dummy, dk) \<Rightarrow>
             (map rank (cards (hand p)), hand_value (hand p), aces (hand p),
              recompute (cards (hand p)))))
     = ([''8'', ''ace''], 9, 0, (19, 1))
   \<and> (case deal ex_env (BasicPlayer ''Player'' False) ex_dealer aces_deck of
      Inr (p, d, dk) \<Rightarrow>
        (case split_hands ex_env p dk of
           Inr (p, dummy, dk) \<Rightarrow>
             (map rank (cards (hand p)), hand_value (hand p), aces (hand p),
              recompute (cards (hand p)),
              (case ace_split_hit ex_env dummy dk (Some dummy) of
                 Inr (dummy, dk) \<Rightarrow>
                   (map rank (cards (hand dummy)), hand_value (hand dummy),
                    aces (hand dummy), recompute (cards (hand dummy)))))))
     = ([''ace'', ''5''], 17, 1, (16, 1), [''ace'', ''7'', ''9''], 20, 1, (17, 0))"
  by code_simp

text \<open>
  C2. The specification asks that after a split the dummy hand is played first and that
  both hands meet the same dealer hand, not dealt again in between. The dummy hand is
  played first and \<open>up_card\<close> stays, but \<open>round\<close> ends by replacing the dealer's hand
  with an empty one, also when it was played for the dummy. From \<open>split_deck\<close> the
  dealer holds 10 and 6 for the dummy's hand; the player's hand then meets a dealer who
  starts from no cards and draws 5, 7, 2 and 3, while \<open>up_card\<close> still shows the 10.
\<close>

theorem split_clears_dealer_hand:
  "(case deal ex_env (BasicPlayer ''Player'' False) ex_dealer split_deck of
      Inr (p, d, dk) \<Rightarrow>
        (get_split_decision ex_env p d,
         case split_hands ex_env p dk of
           Inr (p, dummy, dk) \<Rightarrow>
             (case round_fn 10 ex_env dummy d dk (Some dummy) of
                Some (Inr (dummy', d', dk')) \<Rightarrow>
                  (case add_totals p (Some dummy') of
                     Inr p1 \<Rightarrow>
                       (map rank (cards (dealer_hand d)), hand_value (dealer_hand d),
                        dealer_hand d' = Hand, rank (up_card d'),
                        (case player_loop 10 ex_env p1 d' dk' of
                           Some (Inr (p2, dk2)) \<Rightarrow>
                             (case dealer_turn 10 ex_env p2 d' dk2 of
                                Some (Inr (d3, p3, dk3)) \<Rightarrow>
                                  (hand_value (hand p2), map rank (cards (dealer_hand d3)),
                                   hand_value (dealer_hand d3)))),
                        round_fn 10 ex_env p1 d' dk' (Some dummy') =
                          init_round 10 ex_env (BasicPlayer ''Player'' False) ex_dealer
                            split_deck)))))
     = (Inr ''y'', [''10'', ''6''], 16, True, ''10'', (18, [''5'', ''7'', ''2'', ''3''], 17), True)"
  by code_simp

text \<open>
  C3. The specification asks that the dealer plays whenever the player's total is at
  most 21, so also at exactly 21. The source guards the dealer loop with
  \<open>player.hand.value < 21\<close>. From \<open>double_deck\<close> the player doubles on 11 and reaches
  21 with three cards; the dealer holds 16, is not done and would hit, yet the dealer's
  turn changes nothing, the next card stays in the shoe and the player wins.
\<close>

theorem dealer_skipped_at_21:
  "(case deal ex_env (BasicPlayer ''Player'' False) ex_dealer double_deck of
      Inr (p, d, dk) \<Rightarrow>
        (case player_loop 10 ex_env p d dk of
           Some (Inr (p', dk')) \<Rightarrow>
             (map rank (cards (hand p')), hand_value (hand p'), is_done p',
              map rank (cards (dealer_hand d)), hand_value (dealer_hand d), get_decision d,
              dealer_is_done d, dealer_turn 10 ex_env p' d dk' = Some (Inr (d, p', dk')))))
     = ([''5'', ''6'', ''10''], 21, True, [''10'', ''6''], 16, ''h'', False, True)
   \<and> init_round 10 ex_env (BasicPlayer ''Player'' False) ex_dealer double_deck =
       Some (Inr (\<lparr>hand = Hand, name = ''Player'', is_done = False, current_bet = PyInt 0,
                   total_bets = PyInt 2000, total_earnings = PyInt 2000, rounds = 1, wins = 1,
                   draws = 0, losses = 0, busts = 0, stands = 0, card_counting = False,
                   count = 0\<rparr>,
                  \<lparr>dealer_hand = Hand, dealer_is_done = False,
                   up_card = Card ''10'' ''clubs''\<rparr>,
                  \<lparr>deck_cards = [Card ''3'' ''clubs'', Card ''9'' ''clubs'',
                                 Card ''5'' ''clubs''],
                   number_of_decks = 6, cards_left = 3, seed = 0\<rparr>))"
  by code_simp

text \<open>
  C4. Settlement decides in a fixed order. A player over 21 loses and the bust is
  recorded, whatever the dealer holds (so when both are over 21 the player loses);
  otherwise a dealer over 21 gives a win; otherwise a two-card 21 wins and 1.5 times the
  bet is added to \<open>total_earnings\<close>; otherwise the higher total wins and equal totals
  draw. The amounts are Python's: \<open>current_bet * 1.5\<close> is a float product, a sum or
  difference is exact on two \<open>int\<close>s and a float operation otherwise, and an \<open>int\<close> too
  large for a float raises \<open>OverflowError\<close>. Settlement returns whenever both amounts
  convert to a float.
\<close>

theorem settle_precedence:
  "(hand_value (hand p) > 21 \<longrightarrow>
      settle p d =
        (case py_sub (total_earnings p) (current_bet p) of
           Inl x \<Rightarrow> Inl x
         | Inr s \<Rightarrow>
             Inr (p\<lparr>busts := busts p + 1, rounds := rounds p + 1, losses := losses p + 1,
                    total_earnings := s, current_bet := PyInt 0, is_done := False\<rparr>, d)))
   \<and> (hand_value (hand p) \<le> 21 \<and> hand_value (dealer_hand d) > 21 \<longrightarrow>
      settle p d =
        (case py_add (total_earnings p) (current_bet p) of
           Inl x \<Rightarrow> Inl x
         | Inr s \<Rightarrow>
             Inr (p\<lparr>rounds := rounds p + 1, wins := wins p + 1,
                    total_earnings := s, current_bet := PyInt 0, is_done := False\<rparr>,
                  dealer_goes_bust d)))
   \<and> (hand_value (hand p) = 21 \<and> length (cards (hand p)) = 2
        \<and> hand_value (dealer_hand d) \<le> 21 \<longrightarrow>
      settle p d =
        (case py_mul (current_bet p) (PyFloat (Finite False (3 / 2))) of
           Inl x \<Rightarrow> Inl x
         | Inr b \<Rightarrow>
            (case py_add (total_earnings p) b of
               Inl x \<Rightarrow> Inl x
             | Inr s \<Rightarrow>
                 Inr (p\<lparr>rounds := rounds p + 1, wins := wins p + 1,
                        total_earnings := s, current_bet := PyInt 0, is_done := False\<rparr>, d))))
   \<and> (hand_value (hand p) \<le> 21 \<and> hand_value (dealer_hand d) \<le> 21
        \<and> \<not> (hand_value (hand p) = 21 \<and> length (cards (hand p)) = 2) \<longrightarrow>
      settle p d =
        (if hand_value (hand p) > hand_value (dealer_hand d)
         then (case py_add (total_earnings p) (current_bet p) of
                 Inl x \<Rightarrow> Inl x
               | Inr s \<Rightarrow>
                   Inr (p\<lparr>rounds := rounds p + 1, wins := wins p + 1,
                          total_earnings := s, current_bet := PyInt 0, is_done := False\<rparr>, d))
         else if hand_value (hand p) < hand_value (dealer_hand d)
         then (case py_sub (total_earnings p) (current_bet p) of
                 Inl x \<Rightarrow> Inl x
               | Inr s \<Rightarrow>
                   Inr (p\<lparr>rounds := rounds p + 1, losses := losses p + 1,
                          total_earnings := s, current_bet := PyInt 0, is_done := False\<rparr>, d))
         else Inr (p\<lparr>rounds := rounds p + 1, draws := draws p + 1,
                     current_bet := PyInt 0, is_done := False\<rparr>, d)))
   \<and> ((\<exists>a. py_float (total_earnings p) = Inr a) \<and> (\<exists>b. py_float (current_bet p) = Inr b)
        \<longrightarrow> (\<exists>r. settle p d = Inr r))"
proof -
  have "(\<exists>a. py_float (total_earnings p) = Inr a) \<and> (\<exists>b. py_float (current_bet p) = Inr b)
        \<longrightarrow> (\<exists>r. settle p d = Inr r)"
    using settle_returns[of p _ _ d] by blast
  then show ?thesis
    by (simp add: settle_def goes_bust_def gets_blackjack_def round_outcome_unfold Let_def
             split: sum.splits)
qed

theorem settle_precedence_witness:
  "hand_value (hand over_player) > 21
   \<and> hand_value (dealer_hand over_dealer) > 21
   \<and> settle over_player over_dealer =
       Inr (over_player\<lparr>busts := 1, rounds := 1, losses := 1, total_earnings := PyInt (- 1000),
                        current_bet := PyInt 0, is_done := False\<rparr>, over_dealer)
   \<and> hand_value (hand natural_player) = 21 \<and> length (cards (hand natural_player)) = 2
   \<and> hand_value (dealer_hand pat_dealer) \<le> 21
   \<and> py_mul (current_bet natural_player) (PyFloat (Finite False (3 / 2))) =
       Inr (PyFloat (Finite False (6125850497609143 / 549755813888)))
   \<and> settle natural_player pat_dealer =
       Inr (natural_player\<lparr>rounds := 1, wins := 1,
                           total_earnings := PyFloat (Finite False (6125850497609143 / 549755813888)),
                           current_bet := PyInt 0, is_done := False\<rparr>, pat_dealer)
   \<and> (\<exists>a. py_float (total_earnings natural_player) = Inr a)
   \<and> (\<exists>b. py_float (current_bet natural_player) = Inr b)"
proof -
  have h: "hand_value (hand over_player) > 21" "hand_value (dealer_hand over_dealer) > 21"
    "busts over_player = 0" "rounds over_player = 0" "losses over_player = 0"
    "py_sub (total_earnings over_player) (current_bet over_player) = Inr (PyInt (- 1000))"
    by (simp_all add: over_player_def over_dealer_def ex_dealer_def BasicPlayer_def)
  have n: "hand_value (hand natural_player) = 21" "length (cards (hand natural_player)) = 2"
    "hand_value (dealer_hand pat_dealer) \<le> 21"
    "rounds natural_player = 0" "wins natural_player = 0"
    "total_earnings natural_player = PyInt 0" "current_bet natural_player = bet_7_left"
    by (simp_all add: natural_player_def pat_dealer_def ex_dealer_def BasicPlayer_def)
  have m: "py_mul bet_7_left (PyFloat (Finite False (3 / 2))) =
             Inr (PyFloat (Finite False (6125850497609143 / 549755813888)))"
    by code_simp
  have a: "py_add (PyInt 0) (PyFloat (Finite False (6125850497609143 / 549755813888))) =
             Inr (PyFloat (Finite False (6125850497609143 / 549755813888)))"
    by code_simp
  have f: "py_float (PyInt 0) = Inr (Finite False 0)"
    "py_float bet_7_left = Inr (Finite False (8167800663478857 / 1099511627776))"
    by (simp_all add: py_float_def round_mag_def bet_7_left_def)
  from settle_precedence[of over_player over_dealer] h
  have r1: "settle over_player over_dealer =
       Inr (over_player\<lparr>busts := 1, rounds := 1, losses := 1, total_earnings := PyInt (- 1000),
                        current_bet := PyInt 0, is_done := False\<rparr>, over_dealer)"
    by simp
  from settle_precedence[of natural_player pat_dealer] n m a
  have r2: "settle natural_player pat_dealer =
       Inr (natural_player\<lparr>rounds := 1, wins := 1,
                           total_earnings := PyFloat (Finite False (6125850497609143 / 549755813888)),
                           current_bet := PyInt 0, is_done := False\<rparr>, pat_dealer)"
    by simp
  from h(1,2) n(1,2,3) r1 r2 m f n(6,7) show ?thesis
    by simp
qed

text \<open>
  C5. \<open>round_outcome\<close> with exactly one of win, draw and loss selected increments
  \<open>rounds\<close> and the matching counter; a win adds \<open>current_bet\<close> to
  \<open>total_earnings\<close>, a loss subtracts it (Python's \<open>+\<close> and \<open>-\<close>: exact on two
  \<open>int\<close>s, rounded to the nearest float otherwise), a draw leaves it; and whatever the
  flags, a call that returns ends with \<open>current_bet\<close> at 0, \<open>is_done\<close> at false and
  \<open>rounds\<close> one higher. The call returns whenever both amounts convert to a float.
\<close>

theorem round_outcome_settles:
  "round_outcome p True False False =
     (case py_add (total_earnings p) (current_bet p) of
        Inl x \<Rightarrow> Inl x
      | Inr s \<Rightarrow>
          Inr (p\<lparr>rounds := rounds p + 1, wins := wins p + 1, total_earnings := s,
                 current_bet := PyInt 0, is_done := False\<rparr>))
   \<and> round_outcome p False True False =
       Inr (p\<lparr>rounds := rounds p + 1, draws := draws p + 1,
              current_bet := PyInt 0, is_done := False\<rparr>)
   \<and> round_outcome p False False True =
     (case py_sub (total_earnings p) (current_bet p) of
        Inl x \<Rightarrow> Inl x
      | Inr s \<Rightarrow>
          Inr (p\<lparr>rounds := rounds p + 1, losses := losses p + 1, total_earnings := s,
                 current_bet := PyInt 0, is_done := False\<rparr>))
   \<and> (total_earnings p = PyInt t \<and> current_bet p = PyInt b \<longrightarrow>
        round_outcome p True False False =
          Inr (p\<lparr>rounds := rounds p + 1, wins := wins p + 1, total_earnings := PyInt (t + b),
                 current_bet := PyInt 0, is_done := False\<rparr>)
        \<and> round_outcome p False False True =
          Inr (p\<lparr>rounds := rounds p + 1, losses := losses p + 1,
                 total_earnings := PyInt (t - b), current_bet := PyInt 0, is_done := False\<rparr>))
   \<and> (round_outcome p w d l = Inr q \<longrightarrow>
        current_bet q = PyInt 0 \<and> \<not> is_done q \<and> rounds q = rounds p + 1)
   \<and> ((\<exists>a. py_float (total_earnings p) = Inr a) \<and> (\<exists>c. py_float (current_bet p) = Inr c)
        \<longrightarrow> (\<exists>r. round_outcome p w d l = Inr r))"
proof -
  have "(\<exists>a. py_float (total_earnings p) = Inr a) \<and> (\<exists>c. py_float (current_bet p) = Inr c)
        \<longrightarrow> (\<exists>r. round_outcome p w d l = Inr r)"
    using round_outcome_returns[of p _ _ w d l] by blast
  moreover have "round_outcome p w d l = Inr q \<longrightarrow>
        current_bet q = PyInt 0 \<and> \<not> is_done q \<and> rounds q = rounds p + 1"
    by (auto simp: round_outcome_unfold split: if_splits sum.splits)
  ultimately show ?thesis
    by (simp add: round_outcome_unfold)
qed

theorem round_outcome_settles_witness:
  "round_outcome winning_player True False False =
     Inr (winning_player\<lparr>rounds := 2, wins := 2,
                         total_earnings := PyFloat (Finite False (6806500552899047 / 274877906944)),
                         current_bet := PyInt 0, is_done := False\<rparr>)
   \<and> round_outcome winning_player False False True =
     Inr (winning_player\<lparr>rounds := 2, losses := 1,
                         total_earnings := PyFloat (Finite False (2722600221159619 / 274877906944)),
                         current_bet := PyInt 0, is_done := False\<rparr>)
   \<and> (\<exists>a. py_float (total_earnings winning_player) = Inr a)
   \<and> (\<exists>c. py_float (current_bet winning_player) = Inr c)
   \<and> total_earnings over_player = PyInt 0 \<and> current_bet over_player = PyInt 1000
   \<and> round_outcome over_player True False False =
       Inr (over_player\<lparr>rounds := 1, wins := 1, total_earnings := PyInt 1000,
                        current_bet := PyInt 0, is_done := False\<rparr>)
   \<and> round_outcome over_player False False True =
       Inr (over_player\<lparr>rounds := 1, losses := 1, total_earnings := PyInt (- 1000),
                        current_bet := PyInt 0, is_done := False\<rparr>)"
proof -
  have o: "rounds over_player = 0" "wins over_player = 0" "losses over_player = 0"
    "total_earnings over_player = PyInt 0" "current_bet over_player = PyInt 1000"
    by (simp_all add: over_player_def BasicPlayer_def)
  have w: "rounds winning_player = 1" "wins winning_player = 1" "losses winning_player = 0"
    "total_earnings winning_player = bet_3_left" "current_bet winning_player = bet_7_left"
    by (simp_all add: winning_player_def BasicPlayer_def)
  have a: "py_add bet_3_left bet_7_left =
             Inr (PyFloat (Finite False (6806500552899047 / 274877906944)))"
    by code_simp
  have s: "py_sub bet_3_left bet_7_left =
             Inr (PyFloat (Finite False (2722600221159619 / 274877906944)))"
    by code_simp
  have f: "py_float bet_3_left = Inr (Finite False (4764550387029333 / 274877906944))"
    "py_float bet_7_left = Inr (Finite False (8167800663478857 / 1099511627776))"
    by (simp_all add: py_float_def bet_3_left_def bet_7_left_def)
  from round_outcome_settles
         [where p = winning_player and w = True and d = False and l = False
            and q = "winning_player\<lparr>rounds := 2, wins := 2,
                       total_earnings := PyFloat (Finite False (6806500552899047 / 274877906944)),
                       current_bet := PyInt 0, is_done := False\<rparr>"]
       round_outcome_settles[where p = over_player and t = 0 and b = 1000] o w a s f
  show ?thesis
    by simp
qed

text \<open>
  C6. The specification asks that \<open>count\<close> of a counting player adds up the weight of
  every card drawn from the shoe, the dummy's and the dealer's draws included. \<open>split\<close>
  creates the dummy with card counting off, so \<open>hit_me\<close> of the dummy and the dealer's
  draws in the dummy's round (which are passed the dummy) leave the player's count
  alone. From \<open>split_deck\<close> twelve cards are drawn without a reshuffle; their weights
  add up to 0, the player's count ends at 2.
\<close>

theorem dummy_draws_not_counted:
  "init_round 10 ex_env (BasicPlayer ''Player'' True) ex_dealer split_deck =
     Some (Inr (\<lparr>hand = Hand, name = ''Player'', is_done = False, current_bet = PyInt 0,
                 total_bets = PyFloat (Finite False 0),
                 total_earnings = PyFloat (Finite False 0), rounds = 2, wins = 2, draws = 0,
                 losses = 0, busts = 0, stands = 2, card_counting = True, count = 2\<rparr>,
                \<lparr>dealer_hand = Hand, dealer_is_done = False,
                 up_card = Card ''10'' ''clubs''\<rparr>,
                \<lparr>deck_cards = rev [Card ''4'' ''clubs'', Card ''queen'' ''clubs''],
                 number_of_decks = 6, cards_left = 2, seed = 0\<rparr>))
   \<and> deck_cards split_deck = rev (split_draws @ [Card ''4'' ''clubs'', Card ''queen'' ''clubs''])
   \<and> sum_list (map count_value split_draws) = 0"
  by code_simp

text \<open>
  C7, as the specification states it: \<open>calculate_bet\<close> returns the larger of 0 and
  \<open>bet_unit * true_count\<close>, where \<open>true_count\<close> is \<open>count / (cards_left / 52)\<close> when
  cards are left and \<open>count\<close> otherwise. The source computes this with three float
  operations, each of them rounded. For a count of 1, a unit of 1000 and 3 cards left it
  returns 17333.333333333332 where the formula gives 52000/3, with 5 cards left
  10399.999999999998 where the formula gives 10400; and for a count of \<open>2 ^ 1024\<close> it
  returns nothing: \<open>float(zen_count)\<close> raises \<open>OverflowError\<close>.
\<close>

theorem calculate_bet_inexact:
  "calculate_bet 1 1000 3 = Inr (PyFloat (Finite False (4764550387029333 / 274877906944)))
   \<and> (4764550387029333 / 274877906944 :: rat) \<noteq> max 0 (1000 * (1 / (3 / 52)))
   \<and> calculate_bet 1 1000 5 = Inr (PyFloat (Finite False (5717460464435199 / 549755813888)))
   \<and> (5717460464435199 / 549755813888 :: rat) \<noteq> max 0 (1000 * (1 / (5 / 52)))
   \<and> calculate_bet (2 ^ 1024) 10 104 = Inl OverflowError"
proof -
  have a: "calculate_bet 1 1000 3 = Inr (PyFloat (Finite False (4764550387029333 / 274877906944)))"
    by code_simp
  have b: "calculate_bet 1 1000 5 = Inr (PyFloat (Finite False (5717460464435199 / 549755813888)))"
    by code_simp
  have d: "py_truediv (PyInt 104) (PyFloat (Finite False 52)) = Inr (PyFloat (Finite False 2))"
    by code_simp
  have "py_float (PyInt (2 ^ 1024)) = Inl OverflowError"
    by (rule py_float_overflow) simp
  then have c: "calculate_bet (2 ^ 1024) 10 104 = Inl OverflowError"
    by (simp add: calculate_bet_def d py_gt_def position_def)
  from a b c show ?thesis
    by simp
qed

text \<open>
  C7, amended. For a count below \<open>2 ^ 53\<close> in magnitude, and a unit and a number of cards
  left that are not negative and below \<open>2 ^ 53\<close>, \<open>calculate_bet\<close> returns a finite
  number within a relative error of \<open>2 ^ - 50\<close> of the larger of 0 and
  \<open>bet_unit * true_count\<close>; a count of 4 with unit 10 and 104 cards left gives exactly
  20.0; a count of magnitude \<open>2 ^ 1024\<close> or more raises \<open>OverflowError\<close>.
\<close>

theorem calculate_bet_rounded:
  "(\<bar>c\<bar> < 2 ^ 53 \<and> 0 \<le> b \<and> b < 2 ^ 53 \<and> 0 \<le> n \<and> n < 2 ^ 53 \<longrightarrow>
      (\<exists>r. calculate_bet c b n = Inr r \<and> isfinite r \<and>
           \<bar>py_val r - max 0 (of_int b * (if n > 0 then of_int c / (of_int n / 52) else of_int c))\<bar>
             \<le> max 0 (of_int b * (if n > 0 then of_int c / (of_int n / 52) else of_int c)) / 2 ^ 50))
   \<and> calculate_bet 4 10 104 = Inr (PyFloat (Finite False 20))
   \<and> (2 ^ 1024 \<le> \<bar>c\<bar> \<longrightarrow> calculate_bet c b n = Inl OverflowError)"
proof -
  have ex: "calculate_bet 4 10 104 = Inr (PyFloat (Finite False 20))"
    by code_simp
  show ?thesis
    using calculate_bet_bound[of c b n] calculate_bet_overflow[of c b n] ex by blast
qed

theorem calculate_bet_rounded_witness:
  "\<bar>1 :: int\<bar> < 2 ^ 53 \<and> (0 :: int) \<le> 1000 \<and> (1000 :: int) < 2 ^ 53
   \<and> (0 :: int) \<le> 3 \<and> (3 :: int) < 2 ^ 53
   \<and> calculate_bet 1 1000 3 = Inr (PyFloat (Finite False (4764550387029333 / 274877906944)))
   \<and> isfinite (PyFloat (Finite False (4764550387029333 / 274877906944)))
   \<and> \<bar>4764550387029333 / 274877906944 - 52000 / 3\<bar> \<le> (52000 / 3 :: rat) / 2 ^ 50
   \<and> (2 :: int) ^ 1024 \<le> \<bar>2 ^ 1024\<bar>
   \<and> calculate_bet (2 ^ 1024) 1000 3 = Inl OverflowError"
proof -
  from calculate_bet_rounded[of 1 1000 3] obtain r where
    r: "calculate_bet 1 1000 3 = Inr r" "isfinite r"
       "\<bar>py_val r - 52000 / 3\<bar> \<le> (52000 / 3) / 2 ^ 50"
    by auto
  have "calculate_bet 1 1000 3 = Inr (PyFloat (Finite False (4764550387029333 / 274877906944)))"
    by code_simp
  moreover have "calculate_bet (2 ^ 1024) 1000 3 = Inl OverflowError"
    using calculate_bet_rounded[of "2 ^ 1024" 1000 3] by simp
  ultimately show ?thesis
    using r by auto
qed

text \<open>
  C8. \<open>get_other_decision\<close> looks the hand total up in the soft table when
  \<open>aces > 0\<close> and in the hard table otherwise, and turns a \<open>'d'\<close> into \<open>'h'\<close> when
  the hand has more than two cards; so \<open>'d'\<close> is returned only for a hand of at most two
  cards, which for a hand in play (at least two cards, \<open>deal_counters\<close> and
  \<open>split_hands_lengths\<close>) is a two-card hand.
\<close>

theorem get_other_decision_tables:
  "get_other_decision e p d =
     (case (if aces (hand p) > 0
            then soft_table e (hand_value (hand p)) (rank (up_card d))
            else hard_table e (hand_value (hand p)) (rank (up_card d))) of
        None \<Rightarrow> Inl KeyError
      | Some a \<Rightarrow> Inr (if a = ''d'' \<and> length (cards (hand p)) > 2 then ''h'' else a))
   \<and> (get_other_decision e p d = Inr ''d'' \<longrightarrow> length (cards (hand p)) \<le> 2)
   \<and> (2 \<le> length (cards (hand p)) \<and> get_other_decision e p d = Inr ''d''
        \<longrightarrow> length (cards (hand p)) = 2)"
  by (auto simp: get_other_decision_def search_soft_table_def search_hard_table_def Let_def
           split: option.splits if_splits)

theorem get_other_decision_tables_witness:
  "2 \<le> length (cards (hand ((BasicPlayer ''Player'' False)
       \<lparr>hand := \<lparr>cards = [Card ''5'' ''hearts'', Card ''6'' ''spades''],
                 hand_value = 11, aces = 0\<rparr>\<rparr>)))
   \<and> get_other_decision ex_env ((BasicPlayer ''Player'' False)
       \<lparr>hand := \<lparr>cards = [Card ''5'' ''hearts'', Card ''6'' ''spades''],
                 hand_value = 11, aces = 0\<rparr>\<rparr>)
       (ex_dealer\<lparr>up_card := Card ''10'' ''clubs''\<rparr>) = Inr ''d''
   \<and> length (cards (hand ((BasicPlayer ''Player'' False)
       \<lparr>hand := \<lparr>cards = [Card ''5'' ''hearts'', Card ''6'' ''spades''],
                 hand_value = 11, aces = 0\<rparr>\<rparr>))) = 2
   \<and> get_other_decision ex_env ((BasicPlayer ''Player'' False)
       \<lparr>hand := \<lparr>cards = [Card ''3'' ''hearts'', Card ''4'' ''spades'', Card ''4'' ''clubs''],
                 hand_value = 11, aces = 0\<rparr>\<rparr>)
       (ex_dealer\<lparr>up_card := Card ''10'' ''clubs''\<rparr>) = Inr ''h''"
  using get_other_decision_tables
    [of ex_env "(BasicPlayer ''Player'' False)
       \<lparr>hand := \<lparr>cards = [Card ''5'' ''hearts'', Card ''6'' ''spades''],
                 hand_value = 11, aces = 0\<rparr>\<rparr>" "ex_dealer\<lparr>up_card := Card ''10'' ''clubs''\<rparr>"]
    get_other_decision_tables
    [of ex_env "(BasicPlayer ''Player'' False)
       \<lparr>hand := \<lparr>cards = [Card ''3'' ''hearts'', Card ''4'' ''spades'', Card ''4'' ''clubs''],
                 hand_value = 11, aces = 0\<rparr>\<rparr>" "ex_dealer\<lparr>up_card := Card ''10'' ''clubs''\<rparr>"]
  by (simp add: BasicPlayer_def ex_env_def)

text \<open>
  C9. A round without a split that runs to its end increments \<open>rounds\<close> once and
  exactly one of \<open>wins\<close>, \<open>draws\<close> and \<open>losses\<close> once, so
  \<open>rounds = wins + draws + losses\<close> is kept.
\<close>

theorem unsplit_round_counts_once:
  assumes "deal e p d dk = Inr (p1, d1, dk1)"
    and "get_split_decision e p1 d1 = Inr decision"
    and "decision \<noteq> ''y''"
    and "init_round n e p d dk = Some (Inr (p', d', dk'))"
  shows "rounds p' = rounds p + 1
       \<and> wins p' + draws p' + losses p' = wins p + draws p + losses p + 1
       \<and> (rounds p = wins p + draws p + losses p \<longrightarrow> rounds p' = wins p' + draws p' + losses p')"
proof -
  from assms have "round_fn n e p1 d1 dk1 None = Some (Inr (p', d', dk'))"
    by (simp add: init_round_def)
  from round_fn_counters[OF this] deal_counters(1-4)[OF assms(1)]
  show ?thesis by simp
qed

theorem unsplit_round_counts_once_witness:
  "deal ex_env (BasicPlayer ''Player'' False) ex_dealer double_deck =
     Inr (dealt_player, dealt_dealer, dealt_deck)
   \<and> get_split_decision ex_env dealt_player dealt_dealer = Inr ''n''
   \<and> init_round 10 ex_env (BasicPlayer ''Player'' False) ex_dealer double_deck =
       Some (Inr ((BasicPlayer ''Player'' False)
                    \<lparr>total_bets := PyInt 2000, total_earnings := PyInt 2000, rounds := 1, wins := 1\<rparr>,
                  dealt_dealer\<lparr>dealer_hand := Hand\<rparr>,
                  dealt_deck\<lparr>deck_cards := rev [Card ''5'' ''clubs'', Card ''9'' ''clubs'',
                                                 Card ''3'' ''clubs''],
                             cards_left := 3\<rparr>))
   \<and> rounds ((BasicPlayer ''Player'' False)
                \<lparr>total_bets := PyInt 2000, total_earnings := PyInt 2000, rounds := 1, wins := 1\<rparr>)
       = rounds (BasicPlayer ''Player'' False) + 1"
proof -
  have a: "deal ex_env (BasicPlayer ''Player'' False) ex_dealer double_deck =
             Inr (dealt_player, dealt_dealer, dealt_deck)"
    by code_simp
  have b: "get_split_decision ex_env dealt_player dealt_dealer = Inr ''n''"
    by code_simp
  have c: "''n'' \<noteq> ''y''"
    by simp
  have d: "init_round 10 ex_env (BasicPlayer ''Player'' False) ex_dealer double_deck =
       Some (Inr ((BasicPlayer ''Player'' False)
                    \<lparr>total_bets := PyInt 2000, total_earnings := PyInt 2000, rounds := 1, wins := 1\<rparr>,
                  dealt_dealer\<lparr>dealer_hand := Hand\<rparr>,
                  dealt_deck\<lparr>deck_cards := rev [Card ''5'' ''clubs'', Card ''9'' ''clubs'',
                                                 Card ''3'' ''clubs''],
                             cards_left := 3\<rparr>))"
    by code_simp
  from unsplit_round_counts_once[OF a b c d] a b d show ?thesis
    by simp
qed




end
